theory Spec2Isabelle
  imports Main
begin

section \<open>Errors (shared/src/errors)\<close>

text \<open>
  Every \<^verbatim>\<open>throw\<close> of the source is a value of this datatype. The constructors carry
  the arguments of the error classes; \<open>Error\<close> is a plain JavaScript \<^verbatim>\<open>Error\<close> with
  its message, \<open>TypeError\<close> is what a call through a null channel
  (\<^verbatim>\<open>this.channel!.ack(msg)\<close>) raises.
\<close>

datatype error =
    MessagingError string
  | CircuitBreakerError string
  | TimeoutError string nat
  | RetryExhaustedError string nat
  | TypeError
  | Error string

function show_nat :: "nat \<Rightarrow> string" where
  "show_nat n =
     (if n < 10 then [char_of (48 + n)]
      else show_nat (n div 10) @ [char_of (48 + n mod 10)])"
  by pat_completeness auto
termination
  by (relation "measure (\<lambda>n. n)") auto

fun message_of :: "error \<Rightarrow> string" where
  "message_of (MessagingError m) = m"
| "message_of (CircuitBreakerError serviceName) =
     ''Circuit breaker is open for service: '' @ serviceName"
| "message_of (TimeoutError operation ms) =
     ''Operation '' @ [CHR 0x27] @ operation @ [CHR 0x27] @ '' timed out after ''
       @ show_nat ms @ ''ms''"
| "message_of (RetryExhaustedError operation attempts) =
     ''Retry exhausted for operation '' @ [CHR 0x27] @ operation @ [CHR 0x27] @ '' after ''
       @ show_nat attempts @ '' attempts''"
| "message_of TypeError = ''Cannot read properties of null''"
| "message_of (Error m) = m"

section \<open>The transport connection (shared/src/messaging/connection.ts)\<close>

text \<open>
  The header map of a message. The keys this code reads or writes are fields; every
  other key is carried in \<open>h_other\<close>. An absent key is \<open>None\<close>. The attempt counter
  \<^verbatim>\<open>retryCount\<close> is a natural number, as \<^verbatim>\<open>publish\<close> writes it.
\<close>

record headers =
  h_timestamp :: "int option"
  h_retryCount :: "nat option"
  h_maxRetries :: "nat option"
  h_originalQueue :: "string option"
  h_errorMessage :: "string option"
  h_x_delay :: "nat option"
  h_other :: "string \<rightharpoonup> string"

definition no_headers :: headers where
  "no_headers = \<lparr> h_timestamp = None, h_retryCount = None, h_maxRetries = None,
     h_originalQueue = None, h_errorMessage = None, h_x_delay = None,
     h_other = Map.empty \<rparr>"

record PublishOptions =
  po_priority :: "nat option"
  po_expiration :: "string option"
  po_correlationId :: "string option"
  po_replyTo :: "string option"
  po_headers :: "headers option"
  po_persistent :: "bool option"
  po_delay :: "nat option"
  po_maxRetries :: "nat option"

definition no_options :: PublishOptions where
  "no_options = \<lparr> po_priority = None, po_expiration = None, po_correlationId = None,
     po_replyTo = None, po_headers = None, po_persistent = None, po_delay = None,
     po_maxRetries = None \<rparr>"

record ConsumeOptions =
  co_prefetch :: "nat option"
  co_autoAck :: "bool option"
  co_exclusive :: "bool option"
  co_priority :: "nat option"
  co_maxRetries :: "nat option"
  co_retryDelay :: "nat option"

text \<open>What \<^verbatim>\<open>channel.publish(exchange, routingKey, buffer, publishOptions)\<close> receives.\<close>

record 'm publication =
  pub_exchange :: string
  pub_routingKey :: string
  pub_content :: 'm
  pub_persistent :: bool
  pub_priority :: "nat option"
  pub_expiration :: "string option"
  pub_correlationId :: "string option"
  pub_replyTo :: "string option"
  pub_headers :: headers

text \<open>A terminal action taken on a delivery, identified by its delivery tag.\<close>

datatype settlement =
    Ack nat
  | Nack nat bool
  | Reject nat bool

text \<open>
  The state of a \<^verbatim>\<open>RabbitMQConnection\<close> as far as the message-processing core
  uses it: whether \<^verbatim>\<open>this.channel\<close> is non-null, what has been handed to the
  channel (publications and settlements, in order), the readings of \<^verbatim>\<open>Date.now()\<close>
  (the \<open>ticks\<close>-th call returns \<open>clock ticks\<close>), and the state \<open>world\<close> of everything
  else that a handler may change.
\<close>

record ('m, 'w) conn =
  channel :: bool
  published :: "'m publication list"
  settled :: "settlement list"
  clock :: "nat \<Rightarrow> int"
  ticks :: nat
  world :: 'w

definition dateNow :: "('m, 'w) conn \<Rightarrow> int \<times> ('m, 'w) conn" where
  "dateNow s = (clock s (ticks s), s\<lparr>ticks := Suc (ticks s)\<rparr>)"

definition EXCHANGES_RETRY_name :: string where
  "EXCHANGES_RETRY_name = ''retry''"

definition EXCHANGES_DELAYED_name :: string where
  "EXCHANGES_DELAYED_name = ''delayed''"

text \<open>\<^verbatim>\<open>x || d\<close> on an optional number: \<^verbatim>\<open>undefined\<close> and \<^verbatim>\<open>0\<close> are falsy.\<close>

fun or_default :: "nat option \<Rightarrow> nat \<Rightarrow> nat" where
  "or_default None d = d"
| "or_default (Some n) d = (if n = 0 then d else n)"

text \<open>
  The header object \<^verbatim>\<open>{timestamp: Date.now(), retryCount: 0, maxRetries:
  options.maxRetries || 3, ...options.headers}\<close>: a key of \<^verbatim>\<open>options.headers\<close>
  overrides the default.
\<close>

definition publish_headers :: "int \<Rightarrow> PublishOptions \<Rightarrow> headers" where
  "publish_headers now options =
     (let oh = (case po_headers options of None \<Rightarrow> no_headers | Some h \<Rightarrow> h)
      in oh\<lparr> h_timestamp := Some (case h_timestamp oh of None \<Rightarrow> now | Some t \<Rightarrow> t),
              h_retryCount := Some (case h_retryCount oh of None \<Rightarrow> 0 | Some n \<Rightarrow> n),
              h_maxRetries := Some (case h_maxRetries oh of
                                      None \<Rightarrow> or_default (po_maxRetries options) 3
                                    | Some n \<Rightarrow> n) \<rparr>)"

text \<open>\<^verbatim>\<open>if (options.delay)\<close>: a delay that is present and not zero.\<close>

definition has_delay :: "PublishOptions \<Rightarrow> bool" where
  "has_delay options = (case po_delay options of None \<Rightarrow> False | Some d \<Rightarrow> d \<noteq> 0)"

text \<open>
  The message and options that \<^verbatim>\<open>publish\<close> hands to \<^verbatim>\<open>channel.publish\<close> when
  \<^verbatim>\<open>Date.now()\<close> reads \<open>now\<close>. A delayed message gets the \<^verbatim>\<open>x-delay\<close> header and
  goes to the delayed exchange instead of the one asked for.
\<close>

definition publication_of ::
  "string \<Rightarrow> string \<Rightarrow> 'm \<Rightarrow> PublishOptions \<Rightarrow> int \<Rightarrow> 'm publication" where
  "publication_of exchange routingKey message options now =
     (let hs = publish_headers now options
      in \<lparr> pub_exchange = (if has_delay options then EXCHANGES_DELAYED_name else exchange),
           pub_routingKey = routingKey,
           pub_content = message,
           pub_persistent = (po_persistent options \<noteq> Some False),
           pub_priority = po_priority options,
           pub_expiration = po_expiration options,
           pub_correlationId = po_correlationId options,
           pub_replyTo = po_replyTo options,
           pub_headers =
             (if has_delay options then hs\<lparr>h_x_delay := po_delay options\<rparr> else hs) \<rparr>)"

text \<open>
  \<^verbatim>\<open>RabbitMQConnection.publish\<close>. Without a channel it throws; with one, the message
  and its options reach \<^verbatim>\<open>channel.publish\<close>, whose result is returned.
\<close>

definition publish ::
  "string \<Rightarrow> string \<Rightarrow> 'm \<Rightarrow> PublishOptions \<Rightarrow> ('m, 'w) conn
     \<Rightarrow> (error + bool) \<times> ('m, 'w) conn" where
  "publish exchange routingKey message options s =
     (if \<not> channel s then (Inl (MessagingError ''No active channel available''), s)
      else
        (case dateNow s of (now, s1) \<Rightarrow>
           (Inr True,
            s1\<lparr>published := published s1
                  @ [publication_of exchange routingKey message options now]\<rparr>)))"

text \<open>
  The delivery context that \<^verbatim>\<open>consume\<close> builds for a message: the delivery tag
  stands for the message the \<^verbatim>\<open>ack\<close>/\<^verbatim>\<open>nack\<close>/\<^verbatim>\<open>reject\<close> closures are bound to.
\<close>

record MessageContext =
  ctx_deliveryTag :: nat
  ctx_correlationId :: "string option"
  ctx_replyTo :: "string option"
  ctx_headers :: headers
  ctx_properties_replyTo :: "string option"

definition ack :: "MessageContext \<Rightarrow> ('m, 'w) conn \<Rightarrow> error option \<times> ('m, 'w) conn" where
  "ack context s =
     (if channel s then (None, s\<lparr>settled := settled s @ [Ack (ctx_deliveryTag context)]\<rparr>)
      else (Some TypeError, s))"

definition nack ::
  "MessageContext \<Rightarrow> bool \<Rightarrow> ('m, 'w) conn \<Rightarrow> error option \<times> ('m, 'w) conn" where
  "nack context requeue s =
     (if channel s
      then (None, s\<lparr>settled := settled s @ [Nack (ctx_deliveryTag context) requeue]\<rparr>)
      else (Some TypeError, s))"

text \<open>
  A message handler: \<^verbatim>\<open>(message, context) => Promise<void>\<close>. It resolves (\<open>None\<close>)
  or rejects with an error, and may change anything in the connection state.
\<close>

type_synonym ('m, 'w) MessageHandler =
  "'m \<Rightarrow> MessageContext \<Rightarrow> ('m, 'w) conn \<Rightarrow> error option \<times> ('m, 'w) conn"

text \<open>\<^verbatim>\<open>context.headers.retryCount || 0\<close>\<close>

definition retryCount_of :: "MessageContext \<Rightarrow> nat" where
  "retryCount_of context = or_default (h_retryCount (ctx_headers context)) 0"

section \<open>The saga orchestrator\<close>

text \<open>The objects the orchestrator publishes; \<open>'d\<close> is \<^verbatim>\<open>any\<close> (data, result, error).\<close>

datatype 'd saga_message =
    StepMessage string "string option" 'd "string list"
  | CompletedMessage string 'd
  | CompensateMessage string string 'd
  | FailedMessage string string 'd

record ('d, 'w) SagaOrchestrator =
  activeSteps :: "string \<rightharpoonup> string list"
  connection :: "('d saga_message, 'w) conn"

text \<open>\<^verbatim>\<open>steps.indexOf(x)\<close>: the first position of \<open>x\<close>; \<open>None\<close> is \<^verbatim>\<open>-1\<close>.\<close>

fun indexOf :: "'a list \<Rightarrow> 'a \<Rightarrow> nat option" where
  "indexOf [] x = None"
| "indexOf (y # ys) x = (if y = x then Some 0 else map_option Suc (indexOf ys x))"

text \<open>\<^verbatim>\<open>steps[0]\<close>: \<^verbatim>\<open>undefined\<close> on an empty array.\<close>

fun first_step :: "string list \<Rightarrow> string option" where
  "first_step [] = None"
| "first_step (x # xs) = Some x"

text \<open>A call of \<^verbatim>\<open>this.connection.publish\<close> that is awaited: an error ends the method.\<close>

definition saga_publish ::
  "string \<Rightarrow> 'd saga_message \<Rightarrow> ('d, 'w) SagaOrchestrator
     \<Rightarrow> error option \<times> ('d, 'w) SagaOrchestrator" where
  "saga_publish routingKey message orch =
     (case publish ''saga'' routingKey message no_options (connection orch) of
        (Inl e, c) \<Rightarrow> (Some e, orch\<lparr>connection := c\<rparr>)
      | (Inr _, c) \<Rightarrow> (None, orch\<lparr>connection := c\<rparr>))"

definition startSaga ::
  "string \<Rightarrow> string list \<Rightarrow> 'd \<Rightarrow> ('d, 'w) SagaOrchestrator
     \<Rightarrow> error option \<times> ('d, 'w) SagaOrchestrator" where
  "startSaga sagaId steps initialData orch =
     saga_publish ''saga.start''
       (StepMessage sagaId (first_step steps) initialData (drop 1 steps))
       (orch\<lparr>activeSteps := (activeSteps orch)(sagaId \<mapsto> steps)\<rparr>)"

definition handleStepComplete ::
  "string \<Rightarrow> string \<Rightarrow> 'd \<Rightarrow> ('d, 'w) SagaOrchestrator
     \<Rightarrow> error option \<times> ('d, 'w) SagaOrchestrator" where
  "handleStepComplete sagaId completedStep result orch =
     (case activeSteps orch sagaId of
        None \<Rightarrow> (None, orch)
      | Some steps \<Rightarrow>
          (case indexOf steps completedStep of
             None \<Rightarrow> (None, orch)
           | Some stepIndex \<Rightarrow>
               (case drop (stepIndex + 1) steps of
                  [] \<Rightarrow>
                    saga_publish ''saga.completed'' (CompletedMessage sagaId result)
                      (orch\<lparr>activeSteps := (activeSteps orch)(sagaId := None)\<rparr>)
                | nextStep # rest \<Rightarrow>
                    saga_publish ''saga.continue''
                      (StepMessage sagaId (Some nextStep) result rest) orch)))"

text \<open>The \<^verbatim>\<open>for\<close> loop of \<^verbatim>\<open>handleStepFailed\<close> over the steps to compensate.\<close>

fun publish_compensations ::
  "string \<Rightarrow> 'd \<Rightarrow> string list \<Rightarrow> ('d, 'w) SagaOrchestrator
     \<Rightarrow> error option \<times> ('d, 'w) SagaOrchestrator" where
  "publish_compensations sagaId err [] orch = (None, orch)"
| "publish_compensations sagaId err (step # rest) orch =
     (case saga_publish ''saga.compensate'' (CompensateMessage sagaId step err) orch of
        (Some e, orch') \<Rightarrow> (Some e, orch')
      | (None, orch') \<Rightarrow> publish_compensations sagaId err rest orch')"

definition handleStepFailed ::
  "string \<Rightarrow> string \<Rightarrow> 'd \<Rightarrow> ('d, 'w) SagaOrchestrator
     \<Rightarrow> error option \<times> ('d, 'w) SagaOrchestrator" where
  "handleStepFailed sagaId failedStep err orch =
     (case activeSteps orch sagaId of
        None \<Rightarrow> (None, orch)
      | Some steps \<Rightarrow>
          (case indexOf steps failedStep of
             None \<Rightarrow> (None, orch)
           | Some stepIndex \<Rightarrow>
               (case publish_compensations sagaId err (rev (take stepIndex steps)) orch of
                  (Some e, orch') \<Rightarrow> (Some e, orch')
                | (None, orch') \<Rightarrow>
                    saga_publish ''saga.failed'' (FailedMessage sagaId failedStep err)
                      (orch'\<lparr>activeSteps := (activeSteps orch')(sagaId := None)\<rparr>))))"

text \<open>\<^verbatim>\<open>getSagaStatus\<close>: \<open>None\<close> is \<^verbatim>\<open>null\<close>; the pair is \<^verbatim>\<open>{steps, active}\<close>.\<close>

definition getSagaStatus ::
  "string \<Rightarrow> ('d, 'w) SagaOrchestrator \<Rightarrow> (string list \<times> bool) option" where
  "getSagaStatus sagaId orch =
     (case activeSteps orch sagaId of None \<Rightarrow> None | Some steps \<Rightarrow> Some (steps, True))"

definition getAllActiveSagas :: "('d, 'w) SagaOrchestrator \<Rightarrow> (string \<rightharpoonup> string list)" where
  "getAllActiveSagas orch = activeSteps orch"

text \<open>What a publication says, without its options: exchange, routing key, content.\<close>

definition event_of :: "'m publication \<Rightarrow> string \<times> string \<times> 'm" where
  "event_of p = (pub_exchange p, pub_routingKey p, pub_content p)"

definition events :: "('d, 'w) SagaOrchestrator \<Rightarrow> (string \<times> string \<times> 'd saga_message) list" where
  "events orch = map event_of (published (connection orch))"

text \<open>
  The constructors, on the fields modelled: a new connection has no channel; a successful
  \<^verbatim>\<open>connect()\<close> sets it.
\<close>

definition newRabbitMQConnection :: "(nat \<Rightarrow> int) \<Rightarrow> 'w \<Rightarrow> ('m, 'w) conn" where
  "newRabbitMQConnection clk w =
     \<lparr> channel = False, published = [], settled = [], clock = clk, ticks = 0, world = w \<rparr>"

definition connected :: "('m, 'w) conn \<Rightarrow> ('m, 'w) conn" where
  "connected s = s\<lparr>channel := True\<rparr>"

definition newSagaOrchestrator :: "('d saga_message, 'w) conn \<Rightarrow> ('d, 'w) SagaOrchestrator" where
  "newSagaOrchestrator c = \<lparr> activeSteps = Map.empty, connection = c \<rparr>"

text \<open>An orchestrator on a connected transport, for the worked scenarios.\<close>

definition demo_orchestrator :: "(string, unit) SagaOrchestrator" where
  "demo_orchestrator = newSagaOrchestrator (connected (newRabbitMQConnection (\<lambda>n. int n) ()))"

definition demo_started :: "(string, unit) SagaOrchestrator" where
  "demo_started =
     snd (startSaga ''s1'' [''reserve'', ''pay'', ''ship''] ''data'' demo_orchestrator)"

section \<open>The circuit breaker\<close>

datatype CircuitBreakerState = CLOSED | OPEN | HALF_OPEN

text \<open>
  \<^verbatim>\<open>Required<CircuitBreakerConfig>\<close>: durations in milliseconds, the threshold a count.
\<close>

record CircuitBreakerConfig =
  failureThreshold :: nat
  timeout :: nat
  resetTimeout :: int
  monitoringPeriod :: nat

text \<open>The constructor's argument: any of the keys may be missing.\<close>

record CircuitBreakerConfig_given =
  given_failureThreshold :: "nat option"
  given_timeout :: "nat option"
  given_resetTimeout :: "int option"
  given_monitoringPeriod :: "nat option"

record CircuitBreaker =
  serviceName :: string
  state :: CircuitBreakerState
  failures :: nat
  lastFailureTime :: int
  config :: CircuitBreakerConfig

text \<open>
  The constructor: \<^verbatim>\<open>{failureThreshold: 5, timeout: 60000, resetTimeout: 30000,
  monitoringPeriod: 10000, ...config}\<close>.
\<close>

definition newCircuitBreaker :: "string \<Rightarrow> CircuitBreakerConfig_given \<Rightarrow> CircuitBreaker" where
  "newCircuitBreaker name given =
     \<lparr> serviceName = name, state = CLOSED, failures = 0, lastFailureTime = 0,
       config = \<lparr> failureThreshold = (case given_failureThreshold given of
                                          None \<Rightarrow> 5 | Some n \<Rightarrow> n),
                  timeout = (case given_timeout given of None \<Rightarrow> 60000 | Some n \<Rightarrow> n),
                  resetTimeout = (case given_resetTimeout given of
                                    None \<Rightarrow> 30000 | Some n \<Rightarrow> n),
                  monitoringPeriod = (case given_monitoringPeriod given of
                                        None \<Rightarrow> 10000 | Some n \<Rightarrow> n) \<rparr> \<rparr>"

text \<open>
  The guarded operation \<^verbatim>\<open>() => Promise<T>\<close>: invoked on the state \<open>'w\<close> of the
  dependency, it changes that state and settles after some milliseconds with a value or
  an error, or never settles.
\<close>

datatype 'a completion = Resolves nat 'a | Rejects nat error | Never

type_synonym ('a, 'w) operation = "'w \<Rightarrow> 'a completion \<times> 'w"

text \<open>
  \<^verbatim>\<open>Promise.race([operation(), this.createTimeoutPromise()])\<close>: the result and the
  milliseconds after which the race is settled. The operation wins when it settles no
  later than the timer, which was started after it.
\<close>

definition race :: "'a completion \<Rightarrow> nat \<Rightarrow> (error + 'a) \<times> nat" where
  "race c t =
     (let timed_out = (Inl (Error (''Operation timed out after '' @ show_nat t @ ''ms'')), t)
      in case c of
           Resolves d v \<Rightarrow> if d \<le> t then (Inr v, d) else timed_out
         | Rejects d e \<Rightarrow> if d \<le> t then (Inl e, d) else timed_out
         | Never \<Rightarrow> timed_out)"

definition onSuccess :: "CircuitBreaker \<Rightarrow> CircuitBreaker" where
  "onSuccess cb =
     (let cb1 = cb\<lparr>failures := 0\<rparr>
      in if state cb1 = HALF_OPEN then cb1\<lparr>state := CLOSED\<rparr> else cb1)"

text \<open>\<open>onFailure now cb\<close>: \<open>now\<close> is the reading of \<^verbatim>\<open>Date.now()\<close> in \<^verbatim>\<open>onFailure\<close>.\<close>

definition onFailure :: "int \<Rightarrow> CircuitBreaker \<Rightarrow> CircuitBreaker" where
  "onFailure now cb =
     (let cb1 = cb\<lparr>failures := failures cb + 1, lastFailureTime := now\<rparr>
      in if failures cb1 \<ge> failureThreshold (config cb1) then cb1\<lparr>state := OPEN\<rparr>
         else cb1)"

text \<open>
  The \<^verbatim>\<open>try\<close> block of \<^verbatim>\<open>execute\<close>, entered at time \<open>now\<close>: the operation is invoked
  and raced against the timer; \<^verbatim>\<open>onSuccess\<close> or \<^verbatim>\<open>onFailure\<close> runs when the race is
  settled, and the result is what the returned promise settles with.
\<close>

definition try_operation ::
  "('a, 'w) operation \<Rightarrow> int \<Rightarrow> CircuitBreaker \<Rightarrow> 'w
     \<Rightarrow> (error + 'a) \<times> CircuitBreaker \<times> 'w" where
  "try_operation operation now cb w =
     (case operation w of (c, w') \<Rightarrow>
        (case race c (timeout (config cb)) of
           (Inr v, d) \<Rightarrow> (Inr v, onSuccess cb, w')
         | (Inl e, d) \<Rightarrow> (Inl e, onFailure (now + int d) cb, w')))"

text \<open>
  \<^verbatim>\<open>execute\<close>, called at time \<open>now\<close>. The breaker and the dependency's state are
  returned as they are when the promise has settled.
\<close>

definition execute ::
  "('a, 'w) operation \<Rightarrow> int \<Rightarrow> CircuitBreaker \<Rightarrow> 'w
     \<Rightarrow> (error + 'a) \<times> CircuitBreaker \<times> 'w" where
  "execute operation now cb w =
     (if state cb = OPEN then
        (if now - lastFailureTime cb > resetTimeout (config cb)
         then try_operation operation now (cb\<lparr>state := HALF_OPEN\<rparr>) w
         else (Inl (CircuitBreakerError (serviceName cb)), cb, w))
      else try_operation operation now cb w)"

text \<open>A sequence of calls of \<^verbatim>\<open>execute\<close>, one after the other, each at its time.\<close>

fun execute_all ::
  "(('a, 'w) operation \<times> int) list \<Rightarrow> CircuitBreaker \<Rightarrow> 'w
     \<Rightarrow> (error + 'a) list \<times> CircuitBreaker \<times> 'w" where
  "execute_all [] cb w = ([], cb, w)"
| "execute_all ((operation, now) # calls) cb w =
     (case execute operation now cb w of (r, cb', w') \<Rightarrow>
        (case execute_all calls cb' w' of (rs, cb'', w'') \<Rightarrow> (r # rs, cb'', w'')))"

text \<open>Operations for the worked scenarios: the dependency's state counts the invocations.\<close>

definition failing_op :: "(unit, nat) operation" where
  "failing_op n = (Rejects 10 (Error ''gateway down''), Suc n)"

definition working_op :: "(unit, nat) operation" where
  "working_op n = (Resolves 10 (), Suc n)"

definition demo_breaker :: CircuitBreaker where
  "demo_breaker = newCircuitBreaker ''payments''
     \<lparr> given_failureThreshold = Some 2, given_timeout = None, given_resetTimeout = None,
       given_monitoringPeriod = None \<rparr>"

definition demo_tripped :: CircuitBreaker where
  "demo_tripped =
     fst (snd (execute_all [(failing_op, 100), (failing_op, 200)] demo_breaker 0))"

definition demo_failed_once :: CircuitBreaker where
  "demo_failed_once = fst (snd (execute_all [(failing_op, 100)] demo_breaker 0))"

text \<open>
  What holds of a breaker between two calls of \<^verbatim>\<open>execute\<close>: it is open only with
  the counter at or above the threshold, closed only with the counter below it, and
  never half-open.
\<close>

definition between_calls :: "CircuitBreaker \<Rightarrow> bool" where
  "between_calls cb =
     (case state cb of
        OPEN \<Rightarrow> failureThreshold (config cb) \<le> failures cb
      | CLOSED \<Rightarrow> failures cb < failureThreshold (config cb)
      | HALF_OPEN \<Rightarrow> False)"

section \<open>The message processor\<close>

text \<open>
  \<^verbatim>\<open>createRetryHandler(originalHandler, maxRetries = 3, baseDelay = 1000)\<close>: an
  argument left out is \<open>None\<close>.
\<close>

definition createRetryHandler ::
  "('m, 'w) MessageHandler \<Rightarrow> nat option \<Rightarrow> nat option \<Rightarrow> ('m, 'w) MessageHandler" where
  "createRetryHandler originalHandler maxRetries baseDelay message context s =
     (let maxRetries' = (case maxRetries of None \<Rightarrow> 3 | Some n \<Rightarrow> n);
          baseDelay' = (case baseDelay of None \<Rightarrow> 1000 | Some n \<Rightarrow> n);
          retryCount = retryCount_of context
      in case originalHandler message context s of
           (None, s1) \<Rightarrow> (None, s1)
         | (Some e, s1) \<Rightarrow>
             if retryCount < maxRetries' then
               (case publish ''retry'' ''retry'' message
                       (no_options\<lparr>
                          po_delay := Some (baseDelay' * 2 ^ retryCount),
                          po_headers := Some ((ctx_headers context)\<lparr>
                             h_retryCount := Some (retryCount + 1),
                             h_originalQueue := ctx_properties_replyTo context,
                             h_errorMessage := Some (message_of e)\<rparr>)\<rparr>) s1 of
                  (Inl e', s2) \<Rightarrow> (Some e', s2)
                | (Inr _, s2) \<Rightarrow> ack context s2)
             else nack context False s1)"

text \<open>
  \<^verbatim>\<open>RabbitMQConnection.handleMessageWithRetry\<close>. The \<^verbatim>\<open>try\<close> block is the handler
  and, unless \<^verbatim>\<open>autoAck\<close>, the acknowledgement; an error of either reaches the
  \<^verbatim>\<open>catch\<close> block.
\<close>

definition handleMessageWithRetry ::
  "'m \<Rightarrow> MessageContext \<Rightarrow> ('m, 'w) MessageHandler \<Rightarrow> ConsumeOptions \<Rightarrow> ('m, 'w) conn
     \<Rightarrow> error option \<times> ('m, 'w) conn" where
  "handleMessageWithRetry message context handler options s =
     (let maxRetries = or_default (co_maxRetries options) 3;
          retryDelay = or_default (co_retryDelay options) 1000;
          retryCount = retryCount_of context;
          tried = (case handler message context s of
                     (Some e, s1) \<Rightarrow> (Some e, s1)
                   | (None, s1) \<Rightarrow>
                       if co_autoAck options \<noteq> Some True then ack context s1 else (None, s1))
      in case tried of
           (None, s1) \<Rightarrow> (None, s1)
         | (Some e, s1) \<Rightarrow>
             if retryCount < maxRetries then
               (case publish EXCHANGES_RETRY_name ''retry'' message
                       (no_options\<lparr>
                          po_headers := Some ((ctx_headers context)\<lparr>
                             h_retryCount := Some (retryCount + 1),
                             h_originalQueue := ctx_properties_replyTo context\<rparr>),
                          po_delay := Some (retryDelay * 2 ^ retryCount)\<rparr>) s1 of
                  (Inl e', s2) \<Rightarrow> (Some e', s2)
                | (Inr _, s2) \<Rightarrow> ack context s2)
             else
               (case nack context False s1 of
                  (Some e', s2) \<Rightarrow> (Some e', s2)
                | (None, s2) \<Rightarrow> (Some (RetryExhaustedError ''Message processing'' maxRetries), s2)))"

text \<open>
  A handler whose effects are confined to its own state \<open>'w\<close>: it neither publishes nor
  settles a delivery.
\<close>

definition confined ::
  "('m \<Rightarrow> MessageContext \<Rightarrow> 'w \<Rightarrow> error option \<times> 'w) \<Rightarrow> ('m, 'w) MessageHandler" where
  "confined f message context s =
     (case f message context (world s) of (r, w') \<Rightarrow> (r, s\<lparr>world := w'\<rparr>))"

text \<open>
  The broker's side of a retry cycle: a message published with routing key \<^verbatim>\<open>retry\<close>
  comes back to the consumer as a new delivery with the content, headers and properties
  it was published with.
\<close>

definition redelivery_of :: "'m publication \<Rightarrow> nat \<Rightarrow> MessageContext" where
  "redelivery_of p tag =
     \<lparr> ctx_deliveryTag = tag, ctx_correlationId = pub_correlationId p,
       ctx_replyTo = pub_replyTo p, ctx_headers = pub_headers p,
       ctx_properties_replyTo = pub_replyTo p \<rparr>"

text \<open>
  The deliveries of one logical message to a (wrapped) handler, until a delivery
  publishes no retry: the attempt counters the deliveries carried, in order, and the
  final state. \<open>None\<close>: the fuel did not suffice.
\<close>

fun deliveries ::
  "nat \<Rightarrow> ('m, 'w) MessageHandler \<Rightarrow> 'm \<Rightarrow> MessageContext \<Rightarrow> ('m, 'w) conn
     \<Rightarrow> (nat list \<times> ('m, 'w) conn) option" where
  "deliveries 0 handler message context s = None"
| "deliveries (Suc fuel) handler message context s =
     (case handler message context s of (r, s') \<Rightarrow>
        (case filter (\<lambda>p. pub_routingKey p = ''retry'')
                (drop (length (published s)) (published s')) of
           [] \<Rightarrow> Some ([retryCount_of context], s')
         | p # ps \<Rightarrow>
             map_option (\<lambda>(ns, s''). (retryCount_of context # ns, s''))
               (deliveries fuel handler (pub_content p)
                  (redelivery_of p (Suc (ctx_deliveryTag context))) s')))"

text \<open>
  \<^verbatim>\<open>message.id || context.correlationId\<close>, \<open>None\<close> when that is falsy (absent or
  the empty string).
\<close>

definition messageId_of :: "string \<Rightarrow> MessageContext \<Rightarrow> string option" where
  "messageId_of mid context =
     (if mid \<noteq> [] then Some mid
      else case ctx_correlationId context of
             None \<Rightarrow> None
           | Some c \<Rightarrow> if c \<noteq> [] then Some c else None)"

text \<open>
  \<^verbatim>\<open>createIdempotentHandler\<close>. \<open>id_of\<close> reads the \<^verbatim>\<open>id\<close> field of the message; the
  caller's \<^verbatim>\<open>processedMessagesCache\<close> is passed in and returned.
\<close>

definition createIdempotentHandler ::
  "('m \<Rightarrow> string) \<Rightarrow> ('m, 'w) MessageHandler \<Rightarrow> 'm \<Rightarrow> MessageContext
     \<Rightarrow> string set \<times> ('m, 'w) conn \<Rightarrow> error option \<times> string set \<times> ('m, 'w) conn" where
  "createIdempotentHandler id_of originalHandler message context cs =
     (case cs of (processedMessagesCache, s) \<Rightarrow>
        (case messageId_of (id_of message) context of
           None \<Rightarrow>
             (case originalHandler message context s of
                (r, s') \<Rightarrow> (r, processedMessagesCache, s'))
         | Some messageId \<Rightarrow>
             if messageId \<in> processedMessagesCache then
               (case ack context s of (r, s') \<Rightarrow> (r, processedMessagesCache, s'))
             else
               (case originalHandler message context s of
                  (None, s') \<Rightarrow> (None, insert messageId processedMessagesCache, s')
                | (Some e, s') \<Rightarrow> (Some e, processedMessagesCache, s'))))"

text \<open>The deliveries of a list of messages to the idempotent handler, one after the other.\<close>

fun deliver_all ::
  "('m \<Rightarrow> string) \<Rightarrow> ('m, 'w) MessageHandler \<Rightarrow> ('m \<times> MessageContext) list
     \<Rightarrow> string set \<times> ('m, 'w) conn
     \<Rightarrow> error option list \<times> string set \<times> ('m, 'w) conn" where
  "deliver_all id_of handler [] cs = ([], cs)"
| "deliver_all id_of handler ((message, context) # rest) cs =
     (case createIdempotentHandler id_of handler message context cs of (r, cs') \<Rightarrow>
        (case deliver_all id_of handler rest cs' of (rs, cs'') \<Rightarrow> (r # rs, cs'')))"

text \<open>The keys of a list of deliveries, for those that carry one.\<close>

definition keys_of :: "('m \<Rightarrow> string) \<Rightarrow> ('m \<times> MessageContext) list \<Rightarrow> string list" where
  "keys_of id_of ms = List.map_filter (\<lambda>(m, c). messageId_of (id_of m) c) ms"

text \<open>Fixtures for the worked scenarios: a delivery, and handlers that count their calls.\<close>

definition delivery :: "nat \<Rightarrow> nat option \<Rightarrow> MessageContext" where
  "delivery tag attempt =
     \<lparr> ctx_deliveryTag = tag, ctx_correlationId = None, ctx_replyTo = None,
       ctx_headers = no_headers\<lparr>h_retryCount := attempt\<rparr>,
       ctx_properties_replyTo = None \<rparr>"

definition demo_conn :: "(string, nat) conn" where
  "demo_conn = connected (newRabbitMQConnection (\<lambda>n. int n) 0)"

definition failing_handler :: "(string, nat) MessageHandler" where
  "failing_handler = confined (\<lambda>m c n. (Some (Error ''boom''), Suc n))"

definition counting_handler :: "(string, nat) MessageHandler" where
  "counting_handler = confined (\<lambda>m c n. (None, Suc n))"

definition flaky_handler :: "(string, nat) MessageHandler" where
  "flaky_handler =
     confined (\<lambda>m c n. (if n = 0 then Some (Error ''boom'') else None, Suc n))"

text \<open>\<open>n\<close> deliveries of messages whose ids are the distinct keys \<^verbatim>\<open>k\<close>, \<^verbatim>\<open>kk\<close>, ...\<close>

definition distinct_deliveries :: "nat \<Rightarrow> (string \<times> MessageContext) list" where
  "distinct_deliveries n = map (\<lambda>i. (replicate (Suc i) CHR ''k'', delivery i None)) [0..<n]"

definition no_consume_options :: ConsumeOptions where
  "no_consume_options = \<lparr> co_prefetch = None, co_autoAck = None, co_exclusive = None,
     co_priority = None, co_maxRetries = None, co_retryDelay = None \<rparr>"

section \<open>Request and reply (\<^verbatim>\<open>RabbitMQConnection.rpc\<close>)\<close>

datatype 'r promise = Pending | Resolved 'r | Rejected error

text \<open>\<^verbatim>\<open>resolve\<close> and \<^verbatim>\<open>reject\<close> settle a pending promise and leave a settled one.\<close>

fun settle :: "'r promise \<Rightarrow> 'r promise \<Rightarrow> 'r promise" where
  "settle Pending outcome = outcome"
| "settle p outcome = p"

text \<open>
  One call of \<^verbatim>\<open>rpc\<close>: the connection, the promise returned, whether the timer of
  \<^verbatim>\<open>setTimeout\<close> is still armed, and the consumers the call has registered on the
  channel with \<^verbatim>\<open>channel.consume\<close>, each as reply queue and correlation id.
\<close>

record ('m, 'r, 'w) rpc_call =
  rpc_conn :: "('m, 'w) conn"
  rpc_promise :: "'r promise"
  rpc_timer :: bool
  rpc_timeout :: nat
  rpc_consumers :: "(string \<times> string) list"

text \<open>
  \<^verbatim>\<open>rpc(exchange, routingKey, request, timeout)\<close>. The correlation id (random in the
  source) and the name the broker gives the exclusive reply queue are arguments.
\<close>

definition rpc ::
  "string \<Rightarrow> string \<Rightarrow> 'm \<Rightarrow> nat option \<Rightarrow> string \<Rightarrow> string \<Rightarrow> ('m, 'w) conn
     \<Rightarrow> ('m, 'r, 'w) rpc_call" where
  "rpc exchange routingKey request timeout_ms correlationId responseQueue s =
     (let t = (case timeout_ms of None \<Rightarrow> 30000 | Some n \<Rightarrow> n)
      in if \<not> channel s
         then \<lparr> rpc_conn = s,
                rpc_promise = Rejected (MessagingError ''No active channel available''),
                rpc_timer = False, rpc_timeout = t, rpc_consumers = [] \<rparr>
         else
           (case publish exchange routingKey request
                   (no_options\<lparr>po_correlationId := Some correlationId,
                                po_replyTo := Some responseQueue\<rparr>) s of
              (Inl e, s') \<Rightarrow>
                \<lparr> rpc_conn = s', rpc_promise = Rejected e, rpc_timer = True,
                  rpc_timeout = t, rpc_consumers = [(responseQueue, correlationId)] \<rparr>
            | (Inr _, s') \<Rightarrow>
                \<lparr> rpc_conn = s', rpc_promise = Pending, rpc_timer = True,
                  rpc_timeout = t, rpc_consumers = [(responseQueue, correlationId)] \<rparr>))"

text \<open>The timer fires: \<^verbatim>\<open>reject(new TimeoutError('RPC request', timeout))\<close>.\<close>

definition timer_fires :: "('m, 'r, 'w) rpc_call \<Rightarrow> ('m, 'r, 'w) rpc_call" where
  "timer_fires c =
     (if rpc_timer c
      then c\<lparr> rpc_timer := False,
              rpc_promise := settle (rpc_promise c)
                               (Rejected (TimeoutError ''RPC request'' (rpc_timeout c))) \<rparr>
      else c)"

text \<open>
  A message arrives on a reply queue: delivery tag, queue, correlation id and the parsed
  content (\<open>None\<close> when \<^verbatim>\<open>JSON.parse\<close> throws). Each consumer the call registered on
  that queue for that correlation id runs its callback; without one the message is left
  alone.
\<close>

fun reply_callback ::
  "nat \<Rightarrow> 'r option \<Rightarrow> ('m, 'r, 'w) rpc_call \<Rightarrow> ('m, 'r, 'w) rpc_call" where
  "reply_callback tag None c =
     c\<lparr> rpc_timer := False,
        rpc_promise := settle (rpc_promise c)
                         (Rejected (MessagingError ''Failed to parse RPC response'')) \<rparr>"
| "reply_callback tag (Some response) c =
     (if channel (rpc_conn c)
      then c\<lparr> rpc_timer := False,
              rpc_conn := (rpc_conn c)\<lparr>settled := settled (rpc_conn c) @ [Ack tag]\<rparr>,
              rpc_promise := settle (rpc_promise c) (Resolved response) \<rparr>
      else c\<lparr> rpc_timer := False,
              rpc_promise := settle (rpc_promise c)
                               (Rejected (MessagingError ''Failed to parse RPC response'')) \<rparr>)"

definition reply_arrives ::
  "nat \<Rightarrow> string \<Rightarrow> string option \<Rightarrow> 'r option \<Rightarrow> ('m, 'r, 'w) rpc_call
     \<Rightarrow> ('m, 'r, 'w) rpc_call" where
  "reply_arrives tag queue correlationId content c =
     (case correlationId of
        None \<Rightarrow> c
      | Some k \<Rightarrow>
          if (queue, k) \<in> set (rpc_consumers c) then reply_callback tag content c
          else c)"

definition demo_call :: "(string, string, nat) rpc_call" where
  "demo_call = rpc ''orders'' ''order.get'' ''request'' (Some 5000) ''abc123'' ''amq.gen-1''
     demo_conn"

section \<open>Properties of the saga orchestrator\<close>

lemma indexOf_None_iff: "indexOf xs x = None \<longleftrightarrow> x \<notin> set xs"
  by (induction xs) auto

lemma indexOf_Some_take:
  "indexOf xs x = Some i \<Longrightarrow> take i xs = takeWhile (\<lambda>y. y \<noteq> x) xs"
  by (induction xs arbitrary: i) (auto split: if_splits)

lemma indexOf_Some_drop:
  "indexOf xs x = Some i \<Longrightarrow> drop (i + 1) xs = tl (dropWhile (\<lambda>y. y \<noteq> x) xs)"
  by (induction xs arbitrary: i) (auto split: if_splits)

lemma indexOf_Some_less: "indexOf xs x = Some i \<Longrightarrow> i < length xs \<and> xs ! i = x"
  by (induction xs arbitrary: i) (auto split: if_splits)

lemma indexOf_mem: "x \<in> set xs \<Longrightarrow> \<exists>i. indexOf xs x = Some i"
  using indexOf_None_iff [of xs x] by (cases "indexOf xs x") auto

lemma saga_publish_closed:
  "\<not> channel (connection orch) \<Longrightarrow>
     saga_publish rk msg orch = (Some (MessagingError ''No active channel available''), orch)"
  by (simp add: saga_publish_def publish_def)

lemma saga_publish_open:
  assumes "channel (connection orch)"
  shows "\<exists>orch'. saga_publish rk msg orch = (None, orch')
           \<and> activeSteps orch' = activeSteps orch
           \<and> channel (connection orch')
           \<and> events orch' = events orch @ [(''saga'', rk, msg)]"
  using assms
  by (simp add: saga_publish_def publish_def publication_of_def dateNow_def events_def
      event_of_def has_delay_def no_options_def)

lemma saga_publish_activeSteps:
  "activeSteps (snd (saga_publish rk msg orch)) = activeSteps orch"
  by (simp add: saga_publish_def publish_def dateNow_def split: prod.splits sum.splits)

lemma publish_compensations_open:
  assumes "channel (connection orch)"
  shows "\<exists>orch'. publish_compensations sagaId err xs orch = (None, orch')
           \<and> activeSteps orch' = activeSteps orch
           \<and> channel (connection orch')
           \<and> events orch' = events orch
                @ map (\<lambda>st. (''saga'', ''saga.compensate'', CompensateMessage sagaId st err)) xs"
  using assms
proof (induction xs arbitrary: orch)
  case Nil
  then show ?case by simp
next
  case (Cons x xs)
  from saga_publish_open [OF Cons.prems, of "''saga.compensate''" "CompensateMessage sagaId x err"]
  obtain o1 where o1: "saga_publish ''saga.compensate'' (CompensateMessage sagaId x err) orch = (None, o1)"
    "activeSteps o1 = activeSteps orch" "channel (connection o1)"
    "events o1 = events orch @ [(''saga'', ''saga.compensate'', CompensateMessage sagaId x err)]"
    by blast
  from Cons.IH [OF o1(3)] obtain o2 where
    o2: "publish_compensations sagaId err xs o1 = (None, o2)"
    "activeSteps o2 = activeSteps o1" "channel (connection o2)"
    "events o2 = events o1 @ map (\<lambda>st. (''saga'', ''saga.compensate'', CompensateMessage sagaId st err)) xs"
    by blast
  show ?case using o1 o2 by simp
qed

lemma handleStepComplete_noop:
  "activeSteps orch sagaId = None \<or>
     (\<exists>steps. activeSteps orch sagaId = Some steps \<and> completedStep \<notin> set steps)
   \<Longrightarrow> handleStepComplete sagaId completedStep result orch = (None, orch)"
proof (cases "activeSteps orch sagaId")
  case None
  then show ?thesis by (simp add: handleStepComplete_def)
next
  case (Some steps)
  assume "activeSteps orch sagaId = None \<or>
     (\<exists>steps. activeSteps orch sagaId = Some steps \<and> completedStep \<notin> set steps)"
  with Some have "completedStep \<notin> set steps" by simp
  then have "indexOf steps completedStep = None" by (simp add: indexOf_None_iff)
  with Some show ?thesis by (simp add: handleStepComplete_def)
qed

lemma handleStepComplete_advance:
  assumes "activeSteps orch sagaId = Some steps" and "completedStep \<in> set steps"
    and "channel (connection orch)"
  shows "\<exists>orch'. handleStepComplete sagaId completedStep result orch = (None, orch') \<and>
     (case tl (dropWhile (\<lambda>y. y \<noteq> completedStep) steps) of
        [] \<Rightarrow> activeSteps orch' = (activeSteps orch)(sagaId := None) \<and>
              events orch' = events orch
                @ [(''saga'', ''saga.completed'', CompletedMessage sagaId result)]
      | nextStep # rest \<Rightarrow> activeSteps orch' = activeSteps orch \<and>
              events orch' = events orch
                @ [(''saga'', ''saga.continue'', StepMessage sagaId (Some nextStep) result rest)])"
proof -
  from assms(2) obtain i where i: "indexOf steps completedStep = Some i"
    using indexOf_mem by fastforce
  note d = indexOf_Some_drop [OF i]
  show ?thesis
  proof (cases "tl (dropWhile (\<lambda>y. y \<noteq> completedStep) steps)")
    case Nil
    let ?o = "orch\<lparr>activeSteps := (activeSteps orch)(sagaId := None)\<rparr>"
    have "channel (connection ?o)" using assms(3) by simp
    from saga_publish_open [OF this, of "''saga.completed''" "CompletedMessage sagaId result"]
    show ?thesis using assms(1) i d Nil
      by (auto simp: handleStepComplete_def events_def)
  next
    case (Cons n r)
    from saga_publish_open [OF assms(3), of "''saga.continue''" "StepMessage sagaId (Some n) result r"]
    show ?thesis using assms(1) i d Cons
      by (auto simp: handleStepComplete_def)
  qed
qed

lemmas demo_defs = demo_started_def demo_orchestrator_def newSagaOrchestrator_def connected_def
      newRabbitMQConnection_def startSaga_def saga_publish_def publish_def publication_of_def
      dateNow_def has_delay_def
      no_options_def publish_headers_def no_headers_def events_def event_of_def
      EXCHANGES_DELAYED_name_def

lemma demo_started_steps: "activeSteps demo_started ''s1'' = Some [''reserve'', ''pay'', ''ship'']"
  by (simp add: demo_defs)

lemma demo_started_channel: "channel (connection demo_started)"
  by (simp add: demo_defs)

lemma demo_started_events:
  "events demo_started = [(''saga'', ''saga.start'', StepMessage ''s1'' (Some ''reserve'') ''data'' [''pay'', ''ship''])]"
  by (simp add: demo_defs)

text \<open>
  C1, as stated, fails. After \<^verbatim>\<open>startSaga("s1", ["reserve","pay","ship"], "data")\<close> the
  step \<^verbatim>\<open>ship\<close> is not the head of the list, yet its completion notice is not
  ignored: the saga is deleted and \<^verbatim>\<open>saga.completed\<close> is published.
\<close>

theorem handleStepComplete_not_head_counterexample:
  "activeSteps demo_started ''s1'' = Some [''reserve'', ''pay'', ''ship'']
   \<and> first_step [''reserve'', ''pay'', ''ship''] \<noteq> Some ''ship''
   \<and> handleStepComplete ''s1'' ''ship'' ''done'' demo_started \<noteq> (None, demo_started)
   \<and> activeSteps (snd (handleStepComplete ''s1'' ''ship'' ''done'' demo_started)) ''s1'' = None
   \<and> events (snd (handleStepComplete ''s1'' ''ship'' ''done'' demo_started))
       = events demo_started @ [(''saga'', ''saga.completed'', CompletedMessage ''s1'' ''done'')]"
proof -
  have s: "activeSteps demo_started ''s1'' = Some [''reserve'', ''pay'', ''ship'']"
    by (rule demo_started_steps)
  have i: "indexOf [''reserve'', ''pay'', ''ship''] ''ship'' = Some 2" by simp
  let ?o = "demo_started\<lparr>activeSteps := (activeSteps demo_started)(''s1'' := None)\<rparr>"
  have h: "handleStepComplete ''s1'' ''ship'' ''done'' demo_started
      = saga_publish ''saga.completed'' (CompletedMessage ''s1'' ''done'') ?o"
    by (simp add: handleStepComplete_def s i)
  have c: "channel (connection ?o)" using demo_started_channel by simp
  from saga_publish_open [OF c, of "''saga.completed''" "CompletedMessage ''s1'' ''done''"]
  obtain o' where o': "saga_publish ''saga.completed'' (CompletedMessage ''s1'' ''done'') ?o = (None, o')"
     "activeSteps o' = activeSteps ?o" "events o' = events ?o @ [(''saga'', ''saga.completed'', CompletedMessage ''s1'' ''done'')]"
    by blast
  have "activeSteps o' ''s1'' = None" using o'(2) by simp
  then have ne: "o' \<noteq> demo_started" using s by auto
  show ?thesis using s h o' ne by (simp add: events_def)
qed

text \<open>
  C1, amended. \<^verbatim>\<open>handleStepComplete\<close> is a no-op (state unchanged, nothing published,
  no error) when the saga is unknown or the completed step does not occur in the step
  list stored for the saga. When the step occurs in the stored list, and the transport
  has a channel, the call publishes exactly one event, decided by what follows the first
  occurrence of the step: \<^verbatim>\<open>saga.completed\<close>, with the saga deleted, when nothing
  follows, and otherwise \<^verbatim>\<open>saga.continue\<close> for the next step with the steps after it,
  the stored list untouched.
\<close>

theorem handleStepComplete_membership:
  "((activeSteps orch sagaId = None \<or>
      (\<exists>steps. activeSteps orch sagaId = Some steps \<and> completedStep \<notin> set steps))
     \<longrightarrow> handleStepComplete sagaId completedStep result orch = (None, orch))
   \<and> (\<forall>steps. activeSteps orch sagaId = Some steps \<and> completedStep \<in> set steps
        \<and> channel (connection orch)
     \<longrightarrow> (\<exists>orch'. handleStepComplete sagaId completedStep result orch = (None, orch') \<and>
           (case tl (dropWhile (\<lambda>y. y \<noteq> completedStep) steps) of
              [] \<Rightarrow> activeSteps orch' = (activeSteps orch)(sagaId := None) \<and>
                    events orch' = events orch
                      @ [(''saga'', ''saga.completed'', CompletedMessage sagaId result)]
            | nextStep # rest \<Rightarrow> activeSteps orch' = activeSteps orch \<and>
                    events orch' = events orch
                      @ [(''saga'', ''saga.continue'',
                          StepMessage sagaId (Some nextStep) result rest)])))"
  using handleStepComplete_noop [of orch sagaId completedStep result]
    handleStepComplete_advance [of orch sagaId _ completedStep result]
  by blast

text \<open>
  The amended C1 on the started saga: a notice for the unknown step \<^verbatim>\<open>refund\<close> is
  ignored, one for \<^verbatim>\<open>pay\<close> continues with \<^verbatim>\<open>ship\<close>.
\<close>

theorem handleStepComplete_membership_witness:
  "handleStepComplete ''s1'' ''refund'' ''ok'' demo_started = (None, demo_started)
   \<and> (\<exists>orch'. handleStepComplete ''s1'' ''pay'' ''ok'' demo_started = (None, orch')
        \<and> activeSteps orch' = activeSteps demo_started
        \<and> events orch' = events demo_started
             @ [(''saga'', ''saga.continue'', StepMessage ''s1'' (Some ''ship'') ''ok'' [])])"
  using handleStepComplete_membership [of demo_started "''s1''" "''refund''" "''ok''"]
    handleStepComplete_membership [of demo_started "''s1''" "''pay''" "''ok''"]
  by (simp add: demo_started_steps demo_started_channel)

text \<open>
  C2. For a saga with step list \<open>steps\<close> in which \<open>failedStep\<close> occurs, on a transport
  with a channel, \<^verbatim>\<open>handleStepFailed\<close> first publishes one \<^verbatim>\<open>saga.compensate\<close>
  event for each step before (the first occurrence of) \<open>failedStep\<close>, last step first,
  reaching a state \<open>mid\<close> in which the saga is still stored; then it deletes the saga; and
  from the state without the saga it publishes \<^verbatim>\<open>saga.failed\<close>. The call ends without
  an error, the saga gone and nothing else published.
\<close>

theorem handleStepFailed_compensates_in_reverse:
  assumes "activeSteps orch sagaId = Some steps" and "failedStep \<in> set steps"
    and "channel (connection orch)"
  shows "\<exists>mid orch'.
     publish_compensations sagaId err (rev (takeWhile (\<lambda>y. y \<noteq> failedStep) steps)) orch
       = (None, mid)
     \<and> activeSteps mid = activeSteps orch
     \<and> events mid = events orch
         @ map (\<lambda>st. (''saga'', ''saga.compensate'', CompensateMessage sagaId st err))
             (rev (takeWhile (\<lambda>y. y \<noteq> failedStep) steps))
     \<and> handleStepFailed sagaId failedStep err orch
         = saga_publish ''saga.failed'' (FailedMessage sagaId failedStep err)
             (mid\<lparr>activeSteps := (activeSteps mid)(sagaId := None)\<rparr>)
     \<and> handleStepFailed sagaId failedStep err orch = (None, orch')
     \<and> activeSteps orch' = (activeSteps orch)(sagaId := None)
     \<and> events orch' = events mid
         @ [(''saga'', ''saga.failed'', FailedMessage sagaId failedStep err)]"
proof -
  from assms(2) obtain i where i: "indexOf steps failedStep = Some i"
    using indexOf_mem by fastforce
  note t = indexOf_Some_take [OF i]
  let ?comp = "rev (takeWhile (\<lambda>y. y \<noteq> failedStep) steps)"
  from publish_compensations_open [OF assms(3), of sagaId err ?comp]
  obtain mid where mid: "publish_compensations sagaId err ?comp orch = (None, mid)"
    "activeSteps mid = activeSteps orch" "channel (connection mid)"
    "events mid = events orch
       @ map (\<lambda>st. (''saga'', ''saga.compensate'', CompensateMessage sagaId st err)) ?comp"
    by blast
  let ?del = "mid\<lparr>activeSteps := (activeSteps mid)(sagaId := None)\<rparr>"
  have c: "channel (connection ?del)" using mid(3) by simp
  from saga_publish_open [OF c, of "''saga.failed''" "FailedMessage sagaId failedStep err"]
  obtain orch' where o: "saga_publish ''saga.failed'' (FailedMessage sagaId failedStep err) ?del
       = (None, orch')"
    "activeSteps orch' = activeSteps ?del"
    "events orch' = events ?del @ [(''saga'', ''saga.failed'', FailedMessage sagaId failedStep err)]"
    by blast
  have h: "handleStepFailed sagaId failedStep err orch
       = saga_publish ''saga.failed'' (FailedMessage sagaId failedStep err) ?del"
    using assms(1) i t mid(1) by (simp add: handleStepFailed_def)
  have e: "events ?del = events mid" by (simp add: events_def)
  show ?thesis using mid o h e by auto
qed

text \<open>
  The scenario of C2: \<^verbatim>\<open>startSaga("s1", ["reserve","pay","ship"], data)\<close>, then
  \<^verbatim>\<open>handleStepFailed("s1", "pay", err)\<close>: one compensation, for \<^verbatim>\<open>reserve\<close>, then
  \<^verbatim>\<open>saga.failed\<close>, and the saga is removed.
\<close>

theorem handleStepFailed_compensates_in_reverse_witness:
  "\<exists>orch'. handleStepFailed ''s1'' ''pay'' ''declined'' demo_started = (None, orch')
     \<and> activeSteps orch' ''s1'' = None
     \<and> events orch' = events demo_started
         @ [(''saga'', ''saga.compensate'', CompensateMessage ''s1'' ''reserve'' ''declined''),
            (''saga'', ''saga.failed'', FailedMessage ''s1'' ''pay'' ''declined'')]"
proof -
  have m: "''pay'' \<in> set [''reserve'', ''pay'', ''ship'']" by simp
  from handleStepFailed_compensates_in_reverse
    [OF demo_started_steps m demo_started_channel, of "''declined''"]
  show ?thesis by auto
qed

lemma saga_publish_activeSteps':
  "saga_publish rk msg orch = (r, orch') \<Longrightarrow> activeSteps orch' = activeSteps orch"
  using saga_publish_activeSteps [of rk msg orch] by simp

lemma publish_compensations_activeSteps:
  "publish_compensations sagaId err xs orch = (r, orch') \<Longrightarrow> activeSteps orch' = activeSteps orch"
proof (induction xs arbitrary: orch)
  case Nil
  then show ?case by simp
next
  case (Cons x xs)
  obtain r1 o1 where p: "saga_publish ''saga.compensate'' (CompensateMessage sagaId x err) orch = (r1, o1)"
    by (cases "saga_publish ''saga.compensate'' (CompensateMessage sagaId x err) orch")
  note a = saga_publish_activeSteps' [OF p]
  show ?case
  proof (cases r1)
    case None
    with Cons.prems p have "publish_compensations sagaId err xs o1 = (r, orch')" by simp
    from Cons.IH [OF this] a show ?thesis by simp
  next
    case (Some e)
    with Cons.prems p a show ?thesis by simp
  qed
qed

lemma handleStepComplete_entry:
  assumes "activeSteps orch sagaId = Some steps"
  shows "activeSteps (snd (handleStepComplete sagaId completedStep result orch))
     = (case indexOf steps completedStep of
          None \<Rightarrow> activeSteps orch
        | Some i \<Rightarrow> if Suc i < length steps then activeSteps orch
                    else (activeSteps orch)(sagaId := None))"
proof (cases "indexOf steps completedStep")
  case None
  with assms show ?thesis by (simp add: handleStepComplete_def)
next
  case (Some i)
  note l = indexOf_Some_less [OF Some]
  show ?thesis
  proof (cases "drop (Suc i) steps")
    case Nil
    then have "\<not> Suc i < length steps" by simp
    with assms Some Nil show ?thesis
      by (simp add: handleStepComplete_def saga_publish_activeSteps)
  next
    case (Cons n r)
    then have "Suc i < length steps" by (cases "Suc i < length steps") auto
    with assms Some Cons show ?thesis
      by (simp add: handleStepComplete_def saga_publish_activeSteps)
  qed
qed

lemma handleStepFailed_entry:
  assumes "activeSteps orch sagaId = Some steps"
  shows "activeSteps (snd (handleStepFailed sagaId failedStep err orch)) sagaId
           \<in> {Some steps, None}"
proof (cases "indexOf steps failedStep")
  case None
  with assms show ?thesis by (simp add: handleStepFailed_def)
next
  case (Some i)
  obtain r1 o1 where p: "publish_compensations sagaId err (rev (take i steps)) orch = (r1, o1)"
    by (cases "publish_compensations sagaId err (rev (take i steps)) orch")
  note a = publish_compensations_activeSteps [OF p]
  show ?thesis
  proof (cases r1)
    case None
    with assms Some p a show ?thesis
      by (simp add: handleStepFailed_def saga_publish_activeSteps)
  next
    case (Some e)
    with assms \<open>indexOf steps failedStep = Some i\<close> p a show ?thesis
      by (simp add: handleStepFailed_def)
  qed
qed

lemma handleStepComplete_continue:
  assumes "activeSteps orch sagaId = Some steps"
    and "indexOf steps completedStep = Some i" and "Suc i < length steps"
    and "channel (connection orch)"
  shows "\<exists>orch'. handleStepComplete sagaId completedStep result orch = (None, orch')
     \<and> activeSteps orch' = activeSteps orch \<and> channel (connection orch')
     \<and> events orch' = events orch
          @ [(''saga'', ''saga.continue'',
              StepMessage sagaId (Some (steps ! Suc i)) result (drop (Suc (Suc i)) steps))]"
proof -
  have d: "drop (Suc i) steps = steps ! Suc i # drop (Suc (Suc i)) steps"
    using assms(3) by (simp add: Cons_nth_drop_Suc)
  from saga_publish_open [OF assms(4), of "''saga.continue''"
      "StepMessage sagaId (Some (steps ! Suc i)) result (drop (Suc (Suc i)) steps)"]
  show ?thesis using assms(1,2) d by (auto simp: handleStepComplete_def)
qed

text \<open>
  C10. The list stored for a saga is never shortened. After \<^verbatim>\<open>handleStepComplete\<close> or
  \<^verbatim>\<open>handleStepFailed\<close> the entry of the saga is the original list or is gone, and
  \<^verbatim>\<open>handleStepComplete\<close> removes it exactly when the completed step is found at the
  last position. When steps remain after the completed one, the whole map is unchanged,
  \<^verbatim>\<open>getSagaStatus\<close> and \<^verbatim>\<open>getAllActiveSagas\<close> still show the full original list, and
  (on a transport with a channel) a repeated notice for the same step is not ignored: it
  publishes the same \<^verbatim>\<open>saga.continue\<close> event a second time.
\<close>

theorem handleStepComplete_never_shrinks_entry:
  assumes "activeSteps orch sagaId = Some steps"
  shows "activeSteps (snd (handleStepComplete sagaId completedStep result orch)) sagaId
           \<in> {Some steps, None}
     \<and> activeSteps (snd (handleStepFailed sagaId completedStep result orch)) sagaId
           \<in> {Some steps, None}
     \<and> (activeSteps (snd (handleStepComplete sagaId completedStep result orch)) sagaId = None
          \<longleftrightarrow> indexOf steps completedStep = Some (length steps - 1) \<and> steps \<noteq> [])
     \<and> (\<forall>i. indexOf steps completedStep = Some i \<and> Suc i < length steps \<longrightarrow>
          activeSteps (snd (handleStepComplete sagaId completedStep result orch))
            = activeSteps orch
          \<and> getSagaStatus sagaId (snd (handleStepComplete sagaId completedStep result orch))
            = Some (steps, True)
          \<and> getAllActiveSagas (snd (handleStepComplete sagaId completedStep result orch)) sagaId
            = Some steps
          \<and> (channel (connection orch) \<longrightarrow>
               (\<exists>once twice.
                  handleStepComplete sagaId completedStep result orch = (None, once)
                  \<and> handleStepComplete sagaId completedStep result once = (None, twice)
                  \<and> events twice = events orch
                      @ [(''saga'', ''saga.continue'',
                          StepMessage sagaId (Some (steps ! Suc i)) result
                            (drop (Suc (Suc i)) steps)),
                         (''saga'', ''saga.continue'',
                          StepMessage sagaId (Some (steps ! Suc i)) result
                            (drop (Suc (Suc i)) steps))])))"
proof (intro conjI allI impI)
  note e = handleStepComplete_entry [OF assms, of completedStep result]
  show "activeSteps (snd (handleStepComplete sagaId completedStep result orch)) sagaId
           \<in> {Some steps, None}"
    using e assms by (auto split: option.splits)
  show "activeSteps (snd (handleStepFailed sagaId completedStep result orch)) sagaId
           \<in> {Some steps, None}"
    by (rule handleStepFailed_entry [OF assms])
  show "activeSteps (snd (handleStepComplete sagaId completedStep result orch)) sagaId = None
          \<longleftrightarrow> indexOf steps completedStep = Some (length steps - 1) \<and> steps \<noteq> []"
  proof (cases "indexOf steps completedStep")
    case None
    with e assms show ?thesis by simp
  next
    case (Some i)
    from indexOf_Some_less [OF Some] have "i < length steps" by simp
    with e assms Some show ?thesis by auto
  qed
next
  fix i
  assume a: "indexOf steps completedStep = Some i \<and> Suc i < length steps"
  note e = handleStepComplete_entry [OF assms, of completedStep result]
  show k: "activeSteps (snd (handleStepComplete sagaId completedStep result orch))
            = activeSteps orch"
    using e a by simp
  show "getSagaStatus sagaId (snd (handleStepComplete sagaId completedStep result orch))
            = Some (steps, True)"
    using k assms by (simp add: getSagaStatus_def)
  show "getAllActiveSagas (snd (handleStepComplete sagaId completedStep result orch)) sagaId
            = Some steps"
    using k assms by (simp add: getAllActiveSagas_def)
next
  fix i
  assume a: "indexOf steps completedStep = Some i \<and> Suc i < length steps"
    and c: "channel (connection orch)"
  from a have i: "indexOf steps completedStep = Some i" and l: "Suc i < length steps" by simp_all
  from handleStepComplete_continue [OF assms i l c, of result]
  obtain once where o1: "handleStepComplete sagaId completedStep result orch = (None, once)"
    "activeSteps once = activeSteps orch" "channel (connection once)"
    "events once = events orch
          @ [(''saga'', ''saga.continue'',
              StepMessage sagaId (Some (steps ! Suc i)) result (drop (Suc (Suc i)) steps))]"
    by blast
  have s1: "activeSteps once sagaId = Some steps" using o1(2) assms by simp
  from handleStepComplete_continue [OF s1 i l o1(3), of result]
  obtain twice where o2: "handleStepComplete sagaId completedStep result once = (None, twice)"
    "events twice = events once
          @ [(''saga'', ''saga.continue'',
              StepMessage sagaId (Some (steps ! Suc i)) result (drop (Suc (Suc i)) steps))]"
    by blast
  show "\<exists>once twice.
                  handleStepComplete sagaId completedStep result orch = (None, once)
                  \<and> handleStepComplete sagaId completedStep result once = (None, twice)
                  \<and> events twice = events orch
                      @ [(''saga'', ''saga.continue'',
                          StepMessage sagaId (Some (steps ! Suc i)) result
                            (drop (Suc (Suc i)) steps)),
                         (''saga'', ''saga.continue'',
                          StepMessage sagaId (Some (steps ! Suc i)) result
                            (drop (Suc (Suc i)) steps))]"
    using o1 o2 by simp
qed

text \<open>
  C10 on the started saga: \<^verbatim>\<open>reserve\<close> completed twice publishes \<^verbatim>\<open>saga.continue\<close>
  for \<^verbatim>\<open>pay\<close> twice, and the status still lists all three steps.
\<close>

theorem handleStepComplete_never_shrinks_entry_witness:
  "getSagaStatus ''s1'' (snd (handleStepComplete ''s1'' ''reserve'' ''ok'' demo_started))
     = Some ([''reserve'', ''pay'', ''ship''], True)
   \<and> (\<exists>once twice.
        handleStepComplete ''s1'' ''reserve'' ''ok'' demo_started = (None, once)
        \<and> handleStepComplete ''s1'' ''reserve'' ''ok'' once = (None, twice)
        \<and> events twice = events demo_started
            @ [(''saga'', ''saga.continue'', StepMessage ''s1'' (Some ''pay'') ''ok'' [''ship'']),
               (''saga'', ''saga.continue'', StepMessage ''s1'' (Some ''pay'') ''ok'' [''ship''])])"
proof -
  have i: "indexOf [''reserve'', ''pay'', ''ship''] ''reserve'' = Some 0" by simp
  from handleStepComplete_never_shrinks_entry [OF demo_started_steps, of "''reserve''" "''ok''"]
  show ?thesis using i demo_started_channel by (simp del: indexOf.simps)
qed

section \<open>Properties of the circuit breaker\<close>

lemma execute_rejected:
  "state cb = OPEN \<Longrightarrow> now - lastFailureTime cb \<le> resetTimeout (config cb) \<Longrightarrow>
     execute operation now cb w = (Inl (CircuitBreakerError (serviceName cb)), cb, w)"
  by (simp add: execute_def try_operation_def)

lemma execute_config:
  "execute operation now cb w = (r, cb', w') \<Longrightarrow>
     config cb' = config cb \<and> serviceName cb' = serviceName cb"
  by (auto simp: execute_def try_operation_def onSuccess_def onFailure_def Let_def
      split: if_splits prod.splits sum.splits)

lemma execute_closed:
  assumes "state cb = CLOSED"
  shows "execute operation now cb w =
     (case race (fst (operation w)) (timeout (config cb)) of
        (Inr v, d) \<Rightarrow> (Inr v, cb\<lparr>failures := 0\<rparr>, snd (operation w))
      | (Inl e, d) \<Rightarrow>
          (Inl e,
           (if failureThreshold (config cb) \<le> failures cb + 1
            then cb\<lparr>failures := failures cb + 1, lastFailureTime := now + int d, state := OPEN\<rparr>
            else cb\<lparr>failures := failures cb + 1, lastFailureTime := now + int d\<rparr>),
           snd (operation w)))"
  using assms
  by (auto simp: execute_def try_operation_def onSuccess_def onFailure_def Let_def
      split: prod.splits sum.splits)

lemma execute_probe:
  assumes "state cb = OPEN" and "now - lastFailureTime cb > resetTimeout (config cb)"
  shows "execute operation now cb w =
     (case race (fst (operation w)) (timeout (config cb)) of
        (Inr v, d) \<Rightarrow> (Inr v, cb\<lparr>state := CLOSED, failures := 0\<rparr>, snd (operation w))
      | (Inl e, d) \<Rightarrow>
          (Inl e,
           (if failureThreshold (config cb) \<le> failures cb + 1
            then cb\<lparr>state := OPEN, failures := failures cb + 1, lastFailureTime := now + int d\<rparr>
            else cb\<lparr>state := HALF_OPEN, failures := failures cb + 1,
                    lastFailureTime := now + int d\<rparr>),
           snd (operation w)))"
  using assms
  by (auto simp: execute_def try_operation_def onSuccess_def onFailure_def Let_def
      split: prod.splits sum.splits)

lemma between_calls_new:
  "0 < failureThreshold (config (newCircuitBreaker name given)) \<Longrightarrow>
     between_calls (newCircuitBreaker name given)"
  by (simp add: between_calls_def newCircuitBreaker_def)

lemma between_calls_execute:
  assumes "between_calls cb" and "execute operation now cb w = (r, cb', w')"
    and "0 < failureThreshold (config cb)"
  shows "between_calls cb'"
proof (cases "state cb")
  case CLOSED
  from assms(2) show ?thesis
    unfolding execute_closed [OF CLOSED] using assms(1,3) CLOSED
    by (auto simp: between_calls_def split: prod.splits sum.splits if_splits)
next
  case OPEN
  show ?thesis
  proof (cases "now - lastFailureTime cb > resetTimeout (config cb)")
    case True
    from assms(2) show ?thesis
      unfolding execute_probe [OF OPEN True] using assms(1,3) OPEN
      by (auto simp: between_calls_def split: prod.splits sum.splits if_splits)
  next
    case False
    then have "now - lastFailureTime cb \<le> resetTimeout (config cb)" by simp
    from execute_rejected [OF OPEN this, of operation w] assms show ?thesis by simp
  qed
next
  case HALF_OPEN
  with assms(1) show ?thesis by (simp add: between_calls_def)
qed

lemma between_calls_execute_all:
  "between_calls cb \<Longrightarrow> 0 < failureThreshold (config cb) \<Longrightarrow>
     execute_all calls cb w = (rs, cb', w') \<Longrightarrow>
     between_calls cb' \<and> config cb' = config cb \<and> serviceName cb' = serviceName cb"
proof (induction calls arbitrary: cb w rs)
  case Nil
  then show ?case by simp
next
  case (Cons call calls)
  obtain operation now where call: "call = (operation, now)" by (cases call)
  obtain r cb1 w1 where e: "execute operation now cb w = (r, cb1, w1)"
    by (cases "execute operation now cb w")
  obtain rs1 cb2 w2 where a: "execute_all calls cb1 w1 = (rs1, cb2, w2)"
    by (cases "execute_all calls cb1 w1")
  from Cons.prems(3) call e a have cb': "cb2 = cb'" "w2 = w'" by simp_all
  from between_calls_execute [OF Cons.prems(1) e Cons.prems(2)] have b: "between_calls cb1" .
  have t: "0 < failureThreshold (config cb1)"
    using execute_config [OF e] Cons.prems(2) by simp
  from Cons.IH [OF b t a [unfolded cb']] execute_config [OF e] show ?case by simp
qed

lemma consecutive_failures:
  assumes "state cb = CLOSED"
    and "failures cb + length calls \<le> failureThreshold (config cb)"
    and "execute_all calls cb w = (rs, cb', w')"
    and "list_all isl rs"
  shows "failures cb' = failures cb + length calls \<and>
     state cb' = (if calls \<noteq> [] \<and> failures cb + length calls = failureThreshold (config cb)
                  then OPEN else CLOSED)
     \<and> config cb' = config cb"
  using assms
proof (induction calls arbitrary: cb w rs)
  case Nil
  then show ?case by simp
next
  case (Cons call calls)
  obtain operation now where call: "call = (operation, now)" by (cases call)
  obtain r cb1 w1 where e: "execute operation now cb w = (r, cb1, w1)"
    by (cases "execute operation now cb w")
  obtain rs1 cb2 w2 where a: "execute_all calls cb1 w1 = (rs1, cb2, w2)"
    by (cases "execute_all calls cb1 w1")
  from Cons.prems(3) call e a have eq: "cb2 = cb'" "rs = r # rs1" "w2 = w'" by simp_all
  with Cons.prems(4) have r: "isl r" and rs1: "list_all isl rs1" by simp_all
  from e r Cons.prems(1)
  have cb1: "failures cb1 = failures cb + 1" "config cb1 = config cb"
    "state cb1 = (if failureThreshold (config cb) \<le> failures cb + 1 then OPEN else CLOSED)"
    unfolding execute_closed [OF Cons.prems(1)]
    by (auto split: prod.splits sum.splits if_splits)
  show ?case
  proof (cases "calls = []")
    case True
    with a have "cb2 = cb1" by simp
    with cb1 eq True Cons.prems(2) show ?thesis by auto
  next
    case False
    then have "0 < length calls" by simp
    with Cons.prems(2) have lt: "failures cb + 1 < failureThreshold (config cb)"
      by (cases calls) auto
    with cb1 have c1: "state cb1 = CLOSED" by simp
    have le: "failures cb1 + length calls \<le> failureThreshold (config cb1)"
      using Cons.prems(2) cb1 by simp
    from Cons.IH [OF c1 le a [unfolded eq] rs1] cb1 False show ?thesis by auto
  qed
qed

lemma demo_breaker_eval:
  "demo_breaker = \<lparr> serviceName = ''payments'', state = CLOSED, failures = 0,
     lastFailureTime = 0,
     config = \<lparr> failureThreshold = 2, timeout = 60000, resetTimeout = 30000,
                monitoringPeriod = 10000 \<rparr> \<rparr>"
  by (simp add: demo_breaker_def newCircuitBreaker_def)

lemma race_failing: "10 \<le> t \<Longrightarrow> race (Rejects 10 e) t = (Inl e, 10)"
  by (simp add: race_def)

lemma race_working: "10 \<le> t \<Longrightarrow> race (Resolves 10 v) t = (Inr v, 10)"
  by (simp add: race_def)

lemma demo_tripped_eval:
  "demo_tripped = \<lparr> serviceName = ''payments'', state = OPEN, failures = 2,
     lastFailureTime = 210,
     config = \<lparr> failureThreshold = 2, timeout = 60000, resetTimeout = 30000,
                monitoringPeriod = 10000 \<rparr> \<rparr>"
  by (simp add: demo_tripped_def demo_breaker_eval execute_def try_operation_def failing_op_def race_failing
      onFailure_def Let_def)

lemma demo_tripped_run:
  "execute_all [(failing_op, 100), (failing_op, 200)] demo_breaker 0
     = ([Inl (Error ''gateway down''), Inl (Error ''gateway down'')], demo_tripped, 2)"
  by (simp add: demo_tripped_eval demo_breaker_eval execute_def try_operation_def failing_op_def race_failing
      onFailure_def Let_def)

text \<open>
  C8, as stated, fails. A breaker with threshold 2 is open after two failures, with the
  counter at 2. The probe after the cooldown runs in \<^verbatim>\<open>HALF_OPEN\<close>; when it fails,
  \<^verbatim>\<open>onFailure\<close> moves the breaker from \<^verbatim>\<open>HALF_OPEN\<close> to \<^verbatim>\<open>OPEN\<close> with the counter at 3,
  a value other than the threshold.
\<close>

theorem reopening_above_threshold_counterexample:
  "state demo_tripped = OPEN \<and> failures demo_tripped = 2
   \<and> failureThreshold (config demo_tripped) = 2
   \<and> execute failing_op 40000 demo_tripped 2
       = (Inl (Error ''gateway down''),
          onFailure 40010 (demo_tripped\<lparr>state := HALF_OPEN\<rparr>), 3)
   \<and> state (onFailure 40010 (demo_tripped\<lparr>state := HALF_OPEN\<rparr>)) = OPEN
   \<and> failures (onFailure 40010 (demo_tripped\<lparr>state := HALF_OPEN\<rparr>)) = 3
   \<and> failures (onFailure 40010 (demo_tripped\<lparr>state := HALF_OPEN\<rparr>))
       \<noteq> failureThreshold (config demo_tripped)"
  by (simp add: demo_tripped_eval execute_def try_operation_def failing_op_def race_failing onFailure_def Let_def)

text \<open>
  C3. For a breaker as constructed, with a threshold of at least one:
  from any state reached with the failure counter at zero (the new breaker, or after a
  success), after \<open>failureThreshold\<close> calls of \<^verbatim>\<open>execute\<close> that all failed the state
  is \<^verbatim>\<open>OPEN\<close>; a call on an open breaker with \<open>now - lastFailureTime \<le> resetTimeout\<close> is
  rejected with the breaker-open error, whatever the operation, and leaves the breaker and
  the dependency as they were (the operation is not invoked); a call on an open breaker
  reached by any sequence of calls, with \<open>now - lastFailureTime > resetTimeout\<close>, applies
  the operation to the dependency once, returns the outcome of its race with the timer,
  and leaves the breaker \<^verbatim>\<open>CLOSED\<close> when that is a success and \<^verbatim>\<open>OPEN\<close> when it is a
  failure.
\<close>

theorem breaker_transitions:
  assumes "cb0 = newCircuitBreaker name given" and "0 < failureThreshold (config cb0)"
  shows "(execute_all before cb0 w00 = (rs0, cbA, w) \<longrightarrow> failures cbA = 0 \<longrightarrow>
          length calls = failureThreshold (config cb0) \<longrightarrow>
          execute_all calls cbA w = (rs, cb, w') \<longrightarrow> list_all isl rs \<longrightarrow> state cb = OPEN)
     \<and> (state cb1 = OPEN \<longrightarrow> now1 - lastFailureTime cb1 \<le> resetTimeout (config cb1) \<longrightarrow>
          execute operation1 now1 cb1 w1
            = (Inl (CircuitBreakerError (serviceName cb1)), cb1, w1))
     \<and> (execute_all calls2 cb0 w0 = (rs2, cb2, w2) \<longrightarrow> state cb2 = OPEN \<longrightarrow>
          now2 - lastFailureTime cb2 > resetTimeout (config cb2) \<longrightarrow>
            snd (snd (execute operation2 now2 cb2 w2)) = snd (operation2 w2)
            \<and> fst (execute operation2 now2 cb2 w2)
                = fst (race (fst (operation2 w2)) (timeout (config cb2)))
            \<and> state (fst (snd (execute operation2 now2 cb2 w2)))
                = (if isl (fst (execute operation2 now2 cb2 w2)) then OPEN else CLOSED))"
proof -
  have first: "state cb = OPEN"
    if b: "execute_all before cb0 w00 = (rs0, cbA, w)" and z: "failures cbA = 0"
      and l: "length calls = failureThreshold (config cb0)"
      and e: "execute_all calls cbA w = (rs, cb, w')" and f: "list_all isl rs"
  proof -
    have b0: "between_calls cb0" using assms between_calls_new by simp
    from between_calls_execute_all [OF b0 assms(2) b]
    have i: "between_calls cbA" and k: "config cbA = config cb0" by simp_all
    have c: "state cbA = CLOSED"
      using i z k assms(2) by (cases "state cbA") (simp_all add: between_calls_def)
    have le: "failures cbA + length calls \<le> failureThreshold (config cbA)"
      using l z k by simp
    from l assms(2) have ne: "calls \<noteq> []" by auto
    from consecutive_failures [OF c le e f] ne l z k show ?thesis by simp
  qed
  have second: "execute operation1 now1 cb1 w1
            = (Inl (CircuitBreakerError (serviceName cb1)), cb1, w1)"
    if "state cb1 = OPEN" and "now1 - lastFailureTime cb1 \<le> resetTimeout (config cb1)"
    using that by (simp add: execute_rejected)
  have third: "snd (snd (execute operation2 now2 cb2 w2)) = snd (operation2 w2)
            \<and> fst (execute operation2 now2 cb2 w2)
                = fst (race (fst (operation2 w2)) (timeout (config cb2)))
            \<and> state (fst (snd (execute operation2 now2 cb2 w2)))
                = (if isl (fst (execute operation2 now2 cb2 w2)) then OPEN else CLOSED)"
    if e: "execute_all calls2 cb0 w0 = (rs2, cb2, w2)" and o: "state cb2 = OPEN"
      and t: "now2 - lastFailureTime cb2 > resetTimeout (config cb2)"
  proof -
    have b0: "between_calls cb0" using assms between_calls_new by simp
    from between_calls_execute_all [OF b0 assms(2) e] have b: "between_calls cb2" by simp
    with o have f: "failureThreshold (config cb2) \<le> failures cb2"
      by (simp add: between_calls_def)
    show ?thesis
      unfolding execute_probe [OF o t] using f
      by (auto split: prod.splits sum.splits)
  qed
  from first second third show ?thesis by blast
qed

text \<open>
  C3 on a breaker with threshold 2 and operations that count their invocations: open
  after two failures; at time 300 the call is rejected and the count stays 2; at time
  40000 the probe is invoked once (count 3) and the breaker re-opens or closes.
\<close>

theorem breaker_transitions_witness:
  "state demo_tripped = OPEN
   \<and> execute working_op 300 demo_tripped 2
       = (Inl (CircuitBreakerError ''payments''), demo_tripped, 2)
   \<and> snd (snd (execute failing_op 40000 demo_tripped 2)) = 3
   \<and> state (fst (snd (execute failing_op 40000 demo_tripped 2))) = OPEN
   \<and> snd (snd (execute working_op 40000 demo_tripped 2)) = 3
   \<and> state (fst (snd (execute working_op 40000 demo_tripped 2))) = CLOSED"
proof -
  have i: "demo_breaker = newCircuitBreaker ''payments''
     \<lparr> given_failureThreshold = Some 2, given_timeout = None, given_resetTimeout = None,
       given_monitoringPeriod = None \<rparr>"
    by (simp add: demo_breaker_def)
  have p: "0 < failureThreshold (config demo_breaker)" by (simp add: demo_breaker_eval)
  note t = breaker_transitions [OF i p]
  have l: "length [(failing_op, 100::int), (failing_op, 200)]
     = failureThreshold (config demo_breaker)"
    by (simp add: demo_breaker_eval)
  have f: "list_all isl [Inl (Error ''gateway down'') :: error + unit,
     Inl (Error ''gateway down'')]" by simp
  have n: "execute_all [] demo_breaker (0::nat)
     = ([] :: (error + unit) list, demo_breaker, 0)" by simp
  have z: "failures demo_breaker = 0" by (simp add: demo_breaker_eval)
  have a: "state demo_tripped = OPEN"
    by (rule t [THEN conjunct1, rule_format, OF n z l demo_tripped_run f])
  have early: "300 - lastFailureTime demo_tripped \<le> resetTimeout (config demo_tripped)"
    by (simp add: demo_tripped_eval)
  have late: "40000 - lastFailureTime demo_tripped > resetTimeout (config demo_tripped)"
    by (simp add: demo_tripped_eval)
  have b: "execute working_op 300 demo_tripped 2
       = (Inl (CircuitBreakerError ''payments''), demo_tripped, 2)"
    using t [THEN conjunct2, THEN conjunct1, rule_format, OF a early, of working_op 2]
    by (simp add: demo_tripped_eval)
  note probe = t [THEN conjunct2, THEN conjunct2, rule_format, OF demo_tripped_run a late]
  have c: "snd (snd (execute failing_op 40000 demo_tripped 2)) = 3
   \<and> state (fst (snd (execute failing_op 40000 demo_tripped 2))) = OPEN"
    using probe [of failing_op]
    by (simp add: demo_tripped_eval failing_op_def race_failing)
  have d: "snd (snd (execute working_op 40000 demo_tripped 2)) = 3
   \<and> state (fst (snd (execute working_op 40000 demo_tripped 2))) = CLOSED"
    using probe [of working_op]
    by (simp add: demo_tripped_eval working_op_def race_working)
  from a b c d show ?thesis by simp
qed

lemma demo_failed_once_eval:
  "demo_failed_once = \<lparr> serviceName = ''payments'', state = CLOSED, failures = 1,
     lastFailureTime = 110,
     config = \<lparr> failureThreshold = 2, timeout = 60000, resetTimeout = 30000,
                monitoringPeriod = 10000 \<rparr> \<rparr>"
  by (simp add: demo_failed_once_def demo_breaker_eval execute_def try_operation_def failing_op_def race_failing
      onFailure_def Let_def)

lemma demo_failed_once_run:
  "execute_all [(failing_op, 100)] demo_breaker 0
     = ([Inl (Error ''gateway down'')], demo_failed_once, 1)"
  by (simp add: demo_failed_once_eval demo_breaker_eval execute_def try_operation_def failing_op_def race_failing
      onFailure_def Let_def)

text \<open>
  C8, amended. For a breaker as constructed with a threshold of at least one, in any
  state \<open>cb\<close> reached by a sequence of calls, and a further call of \<^verbatim>\<open>execute\<close>:
  a success resets the counter to zero and leaves the breaker \<^verbatim>\<open>CLOSED\<close>; a failure
  of a closed breaker increments the counter by one, never beyond the threshold, and
  opens the breaker exactly when the counter has reached the threshold; a failed probe of
  an open breaker re-opens it with the counter incremented above the threshold (the code
  tests \<^verbatim>\<open>failures >= failureThreshold\<close> and does not reset the counter on opening).
\<close>

theorem breaker_counter_and_opening:
  assumes "cb0 = newCircuitBreaker name given" and "0 < failureThreshold (config cb0)"
    and "execute_all calls cb0 w0 = (rs, cb, w)"
    and "execute operation now cb w = (r, cb', w')"
  shows "(\<not> isl r \<longrightarrow> failures cb' = 0 \<and> state cb' = CLOSED)
     \<and> (isl r \<longrightarrow> state cb = CLOSED \<longrightarrow>
          failures cb' = failures cb + 1
          \<and> failures cb' \<le> failureThreshold (config cb)
          \<and> state cb' = (if failures cb' = failureThreshold (config cb) then OPEN else CLOSED))
     \<and> (isl r \<longrightarrow> state cb = OPEN \<longrightarrow>
          now - lastFailureTime cb > resetTimeout (config cb) \<longrightarrow>
          failures cb' = failures cb + 1
          \<and> failureThreshold (config cb) < failures cb'
          \<and> state cb' = OPEN)"
proof -
  have b0: "between_calls cb0" using assms(1,2) between_calls_new by simp
  from between_calls_execute_all [OF b0 assms(2,3)]
  have b: "between_calls cb" and c: "config cb = config cb0" by simp_all
  have t: "0 < failureThreshold (config cb)" using c assms(2) by simp
  show ?thesis
  proof (cases "state cb")
    case CLOSED
    with b have f: "failures cb < failureThreshold (config cb)"
      by (simp add: between_calls_def)
    from assms(4) show ?thesis
      unfolding execute_closed [OF CLOSED] using CLOSED f
      by (auto split: prod.splits sum.splits if_splits)
  next
    case OPEN
    with b have f: "failureThreshold (config cb) \<le> failures cb"
      by (simp add: between_calls_def)
    show ?thesis
    proof (cases "now - lastFailureTime cb > resetTimeout (config cb)")
      case True
      from assms(4) show ?thesis
        unfolding execute_probe [OF OPEN True] using OPEN f
        by (auto split: prod.splits sum.splits if_splits)
    next
      case False
      then have "now - lastFailureTime cb \<le> resetTimeout (config cb)" by simp
      from execute_rejected [OF OPEN this, of operation w] assms(4) OPEN False
      show ?thesis by auto
    qed
  next
    case HALF_OPEN
    with b show ?thesis by (simp add: between_calls_def)
  qed
qed

text \<open>
  The amended C8 with threshold 2: after one failure, a success resets the counter and a
  failure opens at counter 2; a failed probe re-opens at counter 3.
\<close>

theorem breaker_counter_and_opening_witness:
  "failures (fst (snd (execute working_op 200 demo_failed_once 1))) = 0
   \<and> state (fst (snd (execute working_op 200 demo_failed_once 1))) = CLOSED
   \<and> failures (fst (snd (execute failing_op 200 demo_failed_once 1))) = 2
   \<and> state (fst (snd (execute failing_op 200 demo_failed_once 1))) = OPEN
   \<and> failures (fst (snd (execute failing_op 40000 demo_tripped 2))) = 3
   \<and> state (fst (snd (execute failing_op 40000 demo_tripped 2))) = OPEN"
proof -
  have i: "demo_breaker = newCircuitBreaker ''payments''
     \<lparr> given_failureThreshold = Some 2, given_timeout = None, given_resetTimeout = None,
       given_monitoringPeriod = None \<rparr>"
    by (simp add: demo_breaker_def)
  have p: "0 < failureThreshold (config demo_breaker)" by (simp add: demo_breaker_eval)
  have e1: "execute working_op 200 demo_failed_once 1
     = (Inr (), fst (snd (execute working_op 200 demo_failed_once 1)), 2)"
    by (simp add: demo_failed_once_eval execute_def try_operation_def working_op_def race_working)
  have e2: "execute failing_op 200 demo_failed_once 1
     = (Inl (Error ''gateway down''), fst (snd (execute failing_op 200 demo_failed_once 1)), 2)"
    by (simp add: demo_failed_once_eval execute_def try_operation_def failing_op_def race_failing)
  have e3: "execute failing_op 40000 demo_tripped 2
     = (Inl (Error ''gateway down''), fst (snd (execute failing_op 40000 demo_tripped 2)), 3)"
    by (simp add: demo_tripped_eval execute_def try_operation_def failing_op_def race_failing)
  have a: "failures (fst (snd (execute working_op 200 demo_failed_once 1))) = 0
   \<and> state (fst (snd (execute working_op 200 demo_failed_once 1))) = CLOSED"
    using breaker_counter_and_opening [OF i p demo_failed_once_run e1] by simp
  have b: "failures (fst (snd (execute failing_op 200 demo_failed_once 1))) = 2
   \<and> state (fst (snd (execute failing_op 200 demo_failed_once 1))) = OPEN"
    using breaker_counter_and_opening [OF i p demo_failed_once_run e2]
    by (simp add: demo_failed_once_eval)
  have c: "failures (fst (snd (execute failing_op 40000 demo_tripped 2))) = 3
   \<and> state (fst (snd (execute failing_op 40000 demo_tripped 2))) = OPEN"
    using breaker_counter_and_opening [OF i p demo_tripped_run e3]
    by (simp add: demo_tripped_eval)
  from a b c show ?thesis by simp
qed

section \<open>Properties of the message processor and of request/reply\<close>

lemma publish_closed:
  "\<not> channel s \<Longrightarrow>
     publish exchange routingKey message options s
       = (Inl (MessagingError ''No active channel available''), s)"
  by (simp add: publish_def)

lemma publish_open:
  "channel s \<Longrightarrow>
     publish exchange routingKey message options s
       = (Inr True,
          s\<lparr>ticks := Suc (ticks s),
            published := published s
              @ [publication_of exchange routingKey message options (clock s (ticks s))]\<rparr>)"
  by (simp add: publish_def dateNow_def)

lemma publication_of_simps:
  "pub_exchange (publication_of exchange routingKey message options now)
     = (if has_delay options then ''delayed'' else exchange)"
  "pub_routingKey (publication_of exchange routingKey message options now) = routingKey"
  "pub_content (publication_of exchange routingKey message options now) = message"
  "pub_correlationId (publication_of exchange routingKey message options now)
     = po_correlationId options"
  "pub_replyTo (publication_of exchange routingKey message options now) = po_replyTo options"
  "pub_headers (publication_of exchange routingKey message options now)
     = (if has_delay options
        then (publish_headers now options)\<lparr>h_x_delay := po_delay options\<rparr>
        else publish_headers now options)"
  by (simp_all add: publication_of_def EXCHANGES_DELAYED_name_def Let_def)

lemma createRetryHandler_success:
  "originalHandler message ctx s = (None, s1) \<Longrightarrow>
     createRetryHandler originalHandler maxRetries baseDelay message ctx s = (None, s1)"
  by (simp add: createRetryHandler_def)

lemma createRetryHandler_retry:
  assumes "originalHandler message ctx s = (Some e, s1)"
    and "retryCount_of ctx < maxRetries" and "channel s1"
  shows "\<exists>p. createRetryHandler originalHandler (Some maxRetries) (Some baseDelay)
               message ctx s
           = (None, s1\<lparr> ticks := Suc (ticks s1), published := published s1 @ [p],
                        settled := settled s1 @ [Ack (ctx_deliveryTag ctx)] \<rparr>)
     \<and> pub_exchange p = (if baseDelay = 0 then ''retry'' else ''delayed'')
     \<and> pub_routingKey p = ''retry''
     \<and> pub_content p = message
     \<and> h_x_delay (pub_headers p)
         = (if baseDelay = 0 then h_x_delay (ctx_headers ctx)
            else Some (baseDelay * 2 ^ retryCount_of ctx))
     \<and> h_retryCount (pub_headers p) = Some (retryCount_of ctx + 1)
     \<and> h_other (pub_headers p) = h_other (ctx_headers ctx)"
proof -
  let ?opts = "no_options\<lparr>
                 po_delay := Some (baseDelay * 2 ^ retryCount_of ctx),
                 po_headers := Some ((ctx_headers ctx)\<lparr>
                    h_retryCount := Some (retryCount_of ctx + 1),
                    h_originalQueue := ctx_properties_replyTo ctx,
                    h_errorMessage := Some (message_of e)\<rparr>)\<rparr>"
  have d: "has_delay ?opts = (baseDelay \<noteq> 0)" by (simp add: has_delay_def)
  define p where "p = publication_of ''retry'' ''retry'' message ?opts (clock s1 (ticks s1))"
  have p: "publish ''retry'' ''retry'' message ?opts s1
           = (Inr True, s1\<lparr>ticks := Suc (ticks s1), published := published s1 @ [p]\<rparr>)"
     "pub_exchange p = (if has_delay ?opts then ''delayed'' else ''retry'')"
     "pub_routingKey p = ''retry''" "pub_content p = message"
     "pub_headers p
         = (if has_delay ?opts
            then (publish_headers (clock s1 (ticks s1)) ?opts)\<lparr>h_x_delay := po_delay ?opts\<rparr>
            else publish_headers (clock s1 (ticks s1)) ?opts)"
    unfolding p_def using publish_open [OF assms(3)] by (simp_all only: publication_of_simps)
  have r: "createRetryHandler originalHandler (Some maxRetries) (Some baseDelay)
               message ctx s
      = (None, s1\<lparr> ticks := Suc (ticks s1), published := published s1 @ [p],
                        settled := settled s1 @ [Ack (ctx_deliveryTag ctx)] \<rparr>)"
    using assms p(1) by (simp add: createRetryHandler_def Let_def ack_def)
  have h: "h_x_delay (pub_headers p)
         = (if baseDelay = 0 then h_x_delay (ctx_headers ctx)
            else Some (baseDelay * 2 ^ retryCount_of ctx))"
    "h_retryCount (pub_headers p) = Some (retryCount_of ctx + 1)"
    "h_other (pub_headers p) = h_other (ctx_headers ctx)"
    using p(5) d by (simp_all add: publish_headers_def no_options_def)
  show ?thesis using r p(2,3,4) h d by auto
qed

lemma createRetryHandler_exhausted:
  assumes "originalHandler message ctx s = (Some e, s1)"
    and "\<not> retryCount_of ctx < maxRetries" and "channel s1"
  shows "createRetryHandler originalHandler (Some maxRetries) baseDelay message ctx s
           = (None, s1\<lparr>settled := settled s1 @ [Nack (ctx_deliveryTag ctx) False]\<rparr>)"
  using assms by (simp add: createRetryHandler_def Let_def nack_def)

lemma handleMessageWithRetry_retry:
  assumes "handler message ctx s = (Some e, s1)"
    and "retryCount_of ctx < or_default (co_maxRetries options) 3" and "channel s1"
  shows "\<exists>p. handleMessageWithRetry message ctx handler options s
           = (None, s1\<lparr> ticks := Suc (ticks s1), published := published s1 @ [p],
                        settled := settled s1 @ [Ack (ctx_deliveryTag ctx)] \<rparr>)
     \<and> pub_exchange p = ''delayed''
     \<and> pub_routingKey p = ''retry''
     \<and> pub_content p = message
     \<and> h_x_delay (pub_headers p)
         = Some (or_default (co_retryDelay options) 1000 * 2 ^ retryCount_of ctx)
     \<and> h_retryCount (pub_headers p) = Some (retryCount_of ctx + 1)
     \<and> h_other (pub_headers p) = h_other (ctx_headers ctx)"
proof -
  let ?opts = "no_options\<lparr>
                 po_headers := Some ((ctx_headers ctx)\<lparr>
                    h_retryCount := Some (retryCount_of ctx + 1),
                    h_originalQueue := ctx_properties_replyTo ctx\<rparr>),
                 po_delay := Some (or_default (co_retryDelay options) 1000
                                     * 2 ^ retryCount_of ctx)\<rparr>"
  have nz: "or_default (co_retryDelay options) 1000 \<noteq> 0"
    by (cases "co_retryDelay options") auto
  then have d: "has_delay ?opts" by (simp add: has_delay_def)
  define p where
    "p = publication_of EXCHANGES_RETRY_name ''retry'' message ?opts (clock s1 (ticks s1))"
  have p: "publish EXCHANGES_RETRY_name ''retry'' message ?opts s1
           = (Inr True, s1\<lparr>ticks := Suc (ticks s1), published := published s1 @ [p]\<rparr>)"
     "pub_exchange p = (if has_delay ?opts then ''delayed'' else EXCHANGES_RETRY_name)"
     "pub_routingKey p = ''retry''" "pub_content p = message"
     "pub_headers p
         = (if has_delay ?opts
            then (publish_headers (clock s1 (ticks s1)) ?opts)\<lparr>h_x_delay := po_delay ?opts\<rparr>
            else publish_headers (clock s1 (ticks s1)) ?opts)"
    unfolding p_def using publish_open [OF assms(3)] by (simp_all only: publication_of_simps)
  have r: "handleMessageWithRetry message ctx handler options s
      = (None, s1\<lparr> ticks := Suc (ticks s1), published := published s1 @ [p],
                        settled := settled s1 @ [Ack (ctx_deliveryTag ctx)] \<rparr>)"
    using assms p(1) by (simp add: handleMessageWithRetry_def Let_def ack_def)
  have h: "h_x_delay (pub_headers p)
         = Some (or_default (co_retryDelay options) 1000 * 2 ^ retryCount_of ctx)"
    "h_retryCount (pub_headers p) = Some (retryCount_of ctx + 1)"
    "h_other (pub_headers p) = h_other (ctx_headers ctx)"
    using p(5) d by (simp_all add: publish_headers_def no_options_def)
  show ?thesis using r p(2,3,4) h d by auto
qed

lemma handleMessageWithRetry_exhausted:
  assumes "handler message ctx s = (Some e, s1)"
    and "\<not> retryCount_of ctx < or_default (co_maxRetries options) 3" and "channel s1"
  shows "handleMessageWithRetry message ctx handler options s
           = (Some (RetryExhaustedError ''Message processing''
                      (or_default (co_maxRetries options) 3)),
              s1\<lparr>settled := settled s1 @ [Nack (ctx_deliveryTag ctx) False]\<rparr>)"
  using assms by (simp add: handleMessageWithRetry_def Let_def nack_def)

lemma handleMessageWithRetry_success:
  assumes "handler message ctx s = (None, s1)" and "channel s1"
  shows "handleMessageWithRetry message ctx handler options s
           = (None, if co_autoAck options \<noteq> Some True
                    then s1\<lparr>settled := settled s1 @ [Ack (ctx_deliveryTag ctx)]\<rparr>
                    else s1)"
  using assms by (simp add: handleMessageWithRetry_def Let_def ack_def)

lemma confined_effects:
  "confined f message context s = (r, s') \<Longrightarrow>
     published s' = published s \<and> settled s' = settled s \<and> channel s' = channel s
     \<and> ticks s' = ticks s \<and> clock s' = clock s
     \<and> (r, world s') = f message context (world s)"
  by (auto simp: confined_def split: prod.splits)

lemma deliveries_bounded:
  assumes step: "\<And>m c s r s'. channel s \<Longrightarrow> W m c s = (r, s') \<Longrightarrow>
      channel s' \<and>
      (case filter (\<lambda>p. pub_routingKey p = ''retry'')
              (drop (length (published s)) (published s')) of
         [] \<Rightarrow> True
       | p # ps \<Rightarrow> retryCount_of c < maxR
                  \<and> h_retryCount (pub_headers p) = Some (Suc (retryCount_of c)))"
    and "channel s" and "maxR - retryCount_of c < fuel"
  shows "\<exists>ns s'. deliveries fuel W m c s = Some (ns, s')
     \<and> ns = [retryCount_of c ..< retryCount_of c + length ns]
     \<and> 0 < length ns \<and> length ns \<le> Suc (maxR - retryCount_of c)"
  using assms(2,3)
proof (induction fuel arbitrary: m c s)
  case 0
  then show ?case by simp
next
  case (Suc fuel)
  obtain r s1 where w: "W m c s = (r, s1)" by (cases "W m c s")
  from step [OF Suc.prems(1) w]
  have c1: "channel s1"
    and k: "(case filter (\<lambda>p. pub_routingKey p = ''retry'')
              (drop (length (published s)) (published s1)) of
         [] \<Rightarrow> True
       | p # ps \<Rightarrow> retryCount_of c < maxR
                  \<and> h_retryCount (pub_headers p) = Some (Suc (retryCount_of c)))"
    by simp_all
  show ?case
  proof (cases "filter (\<lambda>p. pub_routingKey p = ''retry'')
              (drop (length (published s)) (published s1))")
    case Nil
    with w show ?thesis by simp
  next
    case (Cons p ps)
    with k have lt: "retryCount_of c < maxR"
      and h: "h_retryCount (pub_headers p) = Some (Suc (retryCount_of c))" by simp_all
    let ?c' = "redelivery_of p (Suc (ctx_deliveryTag c))"
    have rc: "retryCount_of ?c' = Suc (retryCount_of c)"
      using h by (simp add: retryCount_of_def redelivery_of_def)
    have f: "maxR - retryCount_of ?c' < fuel" using Suc.prems(2) lt rc by simp
    from Suc.IH [OF c1 f, of "pub_content p"]
    obtain ns s' where d: "deliveries fuel W (pub_content p) ?c' s1 = Some (ns, s')"
      "ns = [retryCount_of ?c' ..< retryCount_of ?c' + length ns]"
      "0 < length ns" "length ns \<le> Suc (maxR - retryCount_of ?c')"
      by blast
    have e: "deliveries (Suc fuel) W m c s = Some (retryCount_of c # ns, s')"
      using w Cons d(1) by simp
    have l: "retryCount_of c # ns
        = [retryCount_of c ..< retryCount_of c + length (retryCount_of c # ns)]"
      using d(2,3) rc by (simp add: upt_conv_Cons)
    have b: "length (retryCount_of c # ns) \<le> Suc (maxR - retryCount_of c)"
      using d(4) rc lt by simp
    show ?thesis using e l b by blast
  qed
qed

lemma createRetryHandler_step:
  assumes "channel s"
    and "createRetryHandler (confined f) (Some maxRetries) baseDelay m c s = (r, s')"
  shows "channel s' \<and>
      (case filter (\<lambda>p. pub_routingKey p = ''retry'')
              (drop (length (published s)) (published s')) of
         [] \<Rightarrow> True
       | p # ps \<Rightarrow> retryCount_of c < maxRetries
                  \<and> h_retryCount (pub_headers p) = Some (Suc (retryCount_of c)))"
proof -
  obtain r1 s1 where h: "confined f m c s = (r1, s1)" by (cases "confined f m c s")
  note e = confined_effects [OF h]
  have c1: "channel s1" using e assms(1) by simp
  show ?thesis
  proof (cases r1)
    case None
    with h assms(2) e c1 show ?thesis by (simp add: createRetryHandler_success)
  next
    case (Some err)
    show ?thesis
    proof (cases "retryCount_of c < maxRetries")
      case True
      obtain b where b: "(case baseDelay of None \<Rightarrow> 1000 | Some n \<Rightarrow> n) = b" by simp
      have q: "createRetryHandler (confined f) (Some maxRetries) baseDelay m c s
          = createRetryHandler (confined f) (Some maxRetries) (Some b) m c s"
        using b by (simp add: createRetryHandler_def)
      note x = createRetryHandler_retry [where originalHandler = "confined f" and message = m
          and ctx = c and s = s and baseDelay = b, OF h [unfolded Some] True c1]
      from q x assms(1,2) e c1 show ?thesis using True by auto
    next
      case False
      note x = createRetryHandler_exhausted [where originalHandler = "confined f"
          and message = m and ctx = c and s = s and baseDelay = baseDelay,
          OF h [unfolded Some] False c1]
      from x assms(1,2) e c1 show ?thesis by auto
    qed
  qed
qed

lemma handleMessageWithRetry_step:
  assumes "channel s"
    and "handleMessageWithRetry m c (confined f) options s = (r, s')"
  shows "channel s' \<and>
      (case filter (\<lambda>p. pub_routingKey p = ''retry'')
              (drop (length (published s)) (published s')) of
         [] \<Rightarrow> True
       | p # ps \<Rightarrow> retryCount_of c < or_default (co_maxRetries options) 3
                  \<and> h_retryCount (pub_headers p) = Some (Suc (retryCount_of c)))"
proof -
  obtain r1 s1 where h: "confined f m c s = (r1, s1)" by (cases "confined f m c s")
  note e = confined_effects [OF h]
  have c1: "channel s1" using e assms(1) by simp
  show ?thesis
  proof (cases r1)
    case None
    note x = handleMessageWithRetry_success [where handler = "confined f" and message = m
        and ctx = c and s = s and options = options, OF h [unfolded None] c1]
    from x assms(2) e c1 show ?thesis by (auto split: if_splits)
  next
    case (Some err)
    show ?thesis
    proof (cases "retryCount_of c < or_default (co_maxRetries options) 3")
      case True
      note x = handleMessageWithRetry_retry [where handler = "confined f" and message = m
          and ctx = c and s = s, OF h [unfolded Some] True c1]
      from x assms(1,2) e c1 show ?thesis using True by auto
    next
      case False
      note x = handleMessageWithRetry_exhausted [where handler = "confined f"
          and message = m and ctx = c and s = s, OF h [unfolded Some] False c1]
      from x assms(1,2) e c1 show ?thesis by auto
    qed
  qed
qed

lemma createRetryHandler_deliveries:
  assumes "channel s" and "maxRetries - retryCount_of c < fuel"
  shows "\<exists>ns s'. deliveries fuel (createRetryHandler (confined f) (Some maxRetries) baseDelay)
                   m c s = Some (ns, s')
     \<and> ns = [retryCount_of c ..< retryCount_of c + length ns]
     \<and> 0 < length ns \<and> length ns \<le> Suc (maxRetries - retryCount_of c)"
  by (rule deliveries_bounded [where maxR = maxRetries, OF _ assms])
     (rule createRetryHandler_step)

lemma handleMessageWithRetry_deliveries:
  assumes "channel s" and "or_default (co_maxRetries options) 3 - retryCount_of c < fuel"
  shows "\<exists>ns s'. deliveries fuel (\<lambda>m c. handleMessageWithRetry m c (confined f) options)
                   m c s = Some (ns, s')
     \<and> ns = [retryCount_of c ..< retryCount_of c + length ns]
     \<and> 0 < length ns \<and> length ns \<le> Suc (or_default (co_maxRetries options) 3 - retryCount_of c)"
  by (rule deliveries_bounded [where maxR = "or_default (co_maxRetries options) 3", OF _ assms])
     (rule handleMessageWithRetry_step)

text \<open>
  C4. When the underlying handler fails on a delivery whose attempt counter (header
  \<^verbatim>\<open>retryCount\<close>, 0 when absent) is below \<open>maxRetries\<close>, and the transport has a
  channel, the handler made by \<^verbatim>\<open>createRetryHandler\<close> (with a positive base delay) and
  \<^verbatim>\<open>handleMessageWithRetry\<close> each publish exactly one message: the same content, routing
  key \<^verbatim>\<open>retry\<close>, on the delayed exchange with \<^verbatim>\<open>x-delay\<close> equal to the base delay times
  \<open>2 ^ retryCount\<close>, the counter header incremented by one and the other headers kept;
  then they acknowledge the original delivery and end without an error.
  Across the redeliveries of one message to a handler wrapped either way, the counters
  of successive deliveries are consecutive numbers, and there are at most
  \<open>maxRetries - retryCount + 1\<close> deliveries, that is at most \<open>maxRetries\<close> retries, whatever
  the underlying handler does; fuel above \<open>maxRetries - retryCount\<close> always suffices.
\<close>

theorem retry_decorator_backoff:
  "(originalHandler message ctx s = (Some e, s1) \<longrightarrow> retryCount_of ctx < maxRetries \<longrightarrow>
      channel s1 \<longrightarrow> 0 < baseDelay \<longrightarrow>
      (\<exists>p. createRetryHandler originalHandler (Some maxRetries) (Some baseDelay) message ctx s
              = (None, s1\<lparr> ticks := Suc (ticks s1), published := published s1 @ [p],
                           settled := settled s1 @ [Ack (ctx_deliveryTag ctx)] \<rparr>)
          \<and> pub_exchange p = ''delayed'' \<and> pub_routingKey p = ''retry''
          \<and> pub_content p = message
          \<and> h_x_delay (pub_headers p) = Some (baseDelay * 2 ^ retryCount_of ctx)
          \<and> h_retryCount (pub_headers p) = Some (retryCount_of ctx + 1)
          \<and> h_other (pub_headers p) = h_other (ctx_headers ctx)))
   \<and> (originalHandler message ctx s = (Some e, s1) \<longrightarrow>
      retryCount_of ctx < or_default (co_maxRetries options) 3 \<longrightarrow> channel s1 \<longrightarrow>
      (\<exists>p. handleMessageWithRetry message ctx originalHandler options s
              = (None, s1\<lparr> ticks := Suc (ticks s1), published := published s1 @ [p],
                           settled := settled s1 @ [Ack (ctx_deliveryTag ctx)] \<rparr>)
          \<and> pub_exchange p = ''delayed'' \<and> pub_routingKey p = ''retry''
          \<and> pub_content p = message
          \<and> h_x_delay (pub_headers p)
              = Some (or_default (co_retryDelay options) 1000 * 2 ^ retryCount_of ctx)
          \<and> h_retryCount (pub_headers p) = Some (retryCount_of ctx + 1)
          \<and> h_other (pub_headers p) = h_other (ctx_headers ctx)))
   \<and> (channel s \<longrightarrow> maxRetries - retryCount_of ctx < fuel \<longrightarrow>
      (\<exists>ns s'. deliveries fuel (createRetryHandler (confined f) (Some maxRetries) delay)
                  message ctx s = Some (ns, s')
          \<and> ns = [retryCount_of ctx ..< retryCount_of ctx + length ns]
          \<and> 0 < length ns \<and> length ns \<le> Suc (maxRetries - retryCount_of ctx)))
   \<and> (channel s \<longrightarrow> or_default (co_maxRetries options) 3 - retryCount_of ctx < fuel \<longrightarrow>
      (\<exists>ns s'. deliveries fuel (\<lambda>m c. handleMessageWithRetry m c (confined f) options)
                  message ctx s = Some (ns, s')
          \<and> ns = [retryCount_of ctx ..< retryCount_of ctx + length ns]
          \<and> 0 < length ns
          \<and> length ns \<le> Suc (or_default (co_maxRetries options) 3 - retryCount_of ctx)))"
proof -
  have a: "\<exists>p. createRetryHandler originalHandler (Some maxRetries) (Some baseDelay) message ctx s
              = (None, s1\<lparr> ticks := Suc (ticks s1), published := published s1 @ [p],
                           settled := settled s1 @ [Ack (ctx_deliveryTag ctx)] \<rparr>)
          \<and> pub_exchange p = ''delayed'' \<and> pub_routingKey p = ''retry''
          \<and> pub_content p = message
          \<and> h_x_delay (pub_headers p) = Some (baseDelay * 2 ^ retryCount_of ctx)
          \<and> h_retryCount (pub_headers p) = Some (retryCount_of ctx + 1)
          \<and> h_other (pub_headers p) = h_other (ctx_headers ctx)"
    if h: "originalHandler message ctx s = (Some e, s1)"
      and l: "retryCount_of ctx < maxRetries" and c: "channel s1" and b: "0 < baseDelay"
  proof -
    note x = createRetryHandler_retry [where originalHandler = originalHandler
        and message = message and ctx = ctx and s = s and baseDelay = baseDelay, OF h l c]
    from x b show ?thesis by simp
  qed
  have b: "\<exists>p. handleMessageWithRetry message ctx originalHandler options s
              = (None, s1\<lparr> ticks := Suc (ticks s1), published := published s1 @ [p],
                           settled := settled s1 @ [Ack (ctx_deliveryTag ctx)] \<rparr>)
          \<and> pub_exchange p = ''delayed'' \<and> pub_routingKey p = ''retry''
          \<and> pub_content p = message
          \<and> h_x_delay (pub_headers p)
              = Some (or_default (co_retryDelay options) 1000 * 2 ^ retryCount_of ctx)
          \<and> h_retryCount (pub_headers p) = Some (retryCount_of ctx + 1)
          \<and> h_other (pub_headers p) = h_other (ctx_headers ctx)"
    if h: "originalHandler message ctx s = (Some e, s1)"
      and l: "retryCount_of ctx < or_default (co_maxRetries options) 3" and c: "channel s1"
    by (rule handleMessageWithRetry_retry [where handler = originalHandler
        and message = message and ctx = ctx and s = s, OF h l c])
  note c = createRetryHandler_deliveries [of s maxRetries ctx fuel f delay message]
  note d = handleMessageWithRetry_deliveries [of s options ctx fuel f message]
  from a b c d show ?thesis by blast
qed

lemma failing_handler_run:
  "failing_handler m c s = (Some (Error ''boom''), s\<lparr>world := Suc (world s)\<rparr>)"
  by (simp add: failing_handler_def confined_def)

lemma demo_conn_channel: "channel demo_conn"
  by (simp add: demo_conn_def connected_def newRabbitMQConnection_def)

lemma retryCount_of_delivery: "retryCount_of (delivery tag None) = 0"
  "retryCount_of (delivery tag (Some n)) = n"
  by (simp_all add: retryCount_of_def delivery_def no_headers_def)

lemma delivery_tag: "ctx_deliveryTag (delivery tag attempt) = tag"
  by (simp add: delivery_def)

text \<open>
  C4 with a handler that always fails: the first failure is republished with delay 1000
  and counter 1, a failure at counter 2 with delay 4000 and counter 3, and the deliveries
  of one message stop within four.
\<close>

theorem retry_decorator_backoff_witness:
  "(\<exists>p. createRetryHandler failing_handler (Some 3) (Some 1000) ''m'' (delivery 1 None) demo_conn
          = (None, demo_conn\<lparr> world := 1, ticks := 1, published := [p], settled := [Ack 1] \<rparr>)
      \<and> pub_exchange p = ''delayed'' \<and> pub_routingKey p = ''retry'' \<and> pub_content p = ''m''
      \<and> h_x_delay (pub_headers p) = Some 1000 \<and> h_retryCount (pub_headers p) = Some 1)
   \<and> (\<exists>p. handleMessageWithRetry ''m'' (delivery 1 (Some 2)) failing_handler
            no_consume_options demo_conn
          = (None, demo_conn\<lparr> world := 1, ticks := 1, published := [p], settled := [Ack 1] \<rparr>)
      \<and> pub_exchange p = ''delayed'' \<and> pub_routingKey p = ''retry'' \<and> pub_content p = ''m''
      \<and> h_x_delay (pub_headers p) = Some 4000 \<and> h_retryCount (pub_headers p) = Some 3)
   \<and> (\<exists>ns s'. deliveries 4 (createRetryHandler failing_handler (Some 3) None)
                 ''m'' (delivery 1 None) demo_conn = Some (ns, s')
      \<and> ns = [0 ..< length ns] \<and> 0 < length ns \<and> length ns \<le> 4)
   \<and> (\<exists>ns s'. deliveries 4 (\<lambda>m c. handleMessageWithRetry m c failing_handler
                                 no_consume_options)
                 ''m'' (delivery 1 None) demo_conn = Some (ns, s')
      \<and> ns = [0 ..< length ns] \<and> 0 < length ns \<and> length ns \<le> 4)"
proof -
  let ?s1 = "demo_conn\<lparr>world := Suc (world demo_conn)\<rparr>"
  have w: "world demo_conn = 0" "ticks demo_conn = 0" "published demo_conn = []"
    "settled demo_conn = []"
    by (simp_all add: demo_conn_def connected_def newRabbitMQConnection_def)
  have c1: "channel ?s1" using demo_conn_channel by simp
  have o: "or_default (co_maxRetries no_consume_options) 3 = 3"
    "or_default (co_retryDelay no_consume_options) 1000 = 1000"
    by (simp_all add: no_consume_options_def)
  note t = retry_decorator_backoff [where originalHandler = failing_handler
      and message = "''m''" and s = demo_conn and e = "Error ''boom''" and ?s1.0 = ?s1
      and maxRetries = 3 and options = no_consume_options
      and f = "\<lambda>m c n. (Some (Error ''boom''), Suc n)" and fuel = 4,
      folded failing_handler_def]
  have a: "\<exists>p. createRetryHandler failing_handler (Some 3) (Some 1000) ''m'' (delivery 1 None) demo_conn
          = (None, demo_conn\<lparr> world := 1, ticks := 1, published := [p], settled := [Ack 1] \<rparr>)
      \<and> pub_exchange p = ''delayed'' \<and> pub_routingKey p = ''retry'' \<and> pub_content p = ''m''
      \<and> h_x_delay (pub_headers p) = Some 1000 \<and> h_retryCount (pub_headers p) = Some 1"
    using t [where ctx = "delivery 1 None" and baseDelay = 1000, THEN conjunct1]
      failing_handler_run [of "''m''" "delivery 1 None" demo_conn] c1
    by (simp add: retryCount_of_delivery w delivery_tag) blast
  have b: "\<exists>p. handleMessageWithRetry ''m'' (delivery 1 (Some 2)) failing_handler
            no_consume_options demo_conn
          = (None, demo_conn\<lparr> world := 1, ticks := 1, published := [p], settled := [Ack 1] \<rparr>)
      \<and> pub_exchange p = ''delayed'' \<and> pub_routingKey p = ''retry'' \<and> pub_content p = ''m''
      \<and> h_x_delay (pub_headers p) = Some 4000 \<and> h_retryCount (pub_headers p) = Some 3"
    using t [where ctx = "delivery 1 (Some 2)", THEN conjunct2, THEN conjunct1]
      failing_handler_run [of "''m''" "delivery 1 (Some 2)" demo_conn] c1
    by (simp add: retryCount_of_delivery w delivery_tag o) blast
  have c: "\<exists>ns s'. deliveries 4 (createRetryHandler failing_handler (Some 3) None)
                 ''m'' (delivery 1 None) demo_conn = Some (ns, s')
      \<and> ns = [0 ..< length ns] \<and> 0 < length ns \<and> length ns \<le> 4"
    using t [where ctx = "delivery 1 None" and delay = None,
        THEN conjunct2, THEN conjunct2, THEN conjunct1] demo_conn_channel
    by (simp add: retryCount_of_delivery)
  have d: "\<exists>ns s'. deliveries 4 (\<lambda>m c. handleMessageWithRetry m c failing_handler
                                 no_consume_options)
                 ''m'' (delivery 1 None) demo_conn = Some (ns, s')
      \<and> ns = [0 ..< length ns] \<and> 0 < length ns \<and> length ns \<le> 4"
    using t [where ctx = "delivery 1 None",
        THEN conjunct2, THEN conjunct2, THEN conjunct2] demo_conn_channel
    by (simp add: retryCount_of_delivery o)
  from a b c d show ?thesis by blast
qed

text \<open>
  C6 against the code. On a delivery with attempt counter 3 and \<open>maxRetries = 3\<close> whose
  handler fails, both wrappers negative-acknowledge without requeue.
  \<^verbatim>\<open>handleMessageWithRetry\<close> then rejects with \<^verbatim>\<open>RetryExhaustedError\<close>; the handler made
  by \<^verbatim>\<open>createRetryHandler\<close> resolves normally, so its caller sees no error.
\<close>

theorem createRetryHandler_exhaustion_not_reported:
  "createRetryHandler failing_handler (Some 3) (Some 1000) ''m'' (delivery 7 (Some 3)) demo_conn
     = (None, demo_conn\<lparr>world := 1, settled := [Nack 7 False]\<rparr>)
   \<and> handleMessageWithRetry ''m'' (delivery 7 (Some 3)) failing_handler no_consume_options
       demo_conn
     = (Some (RetryExhaustedError ''Message processing'' 3),
        demo_conn\<lparr>world := 1, settled := [Nack 7 False]\<rparr>)"
proof -
  let ?s1 = "demo_conn\<lparr>world := Suc (world demo_conn)\<rparr>"
  have w: "world demo_conn = 0" "settled demo_conn = []"
    by (simp_all add: demo_conn_def connected_def newRabbitMQConnection_def)
  have c1: "channel ?s1" using demo_conn_channel by simp
  have n: "\<not> retryCount_of (delivery 7 (Some 3)) < 3" by (simp add: retryCount_of_delivery)
  have n': "\<not> retryCount_of (delivery 7 (Some 3))
       < or_default (co_maxRetries no_consume_options) 3"
    by (simp add: retryCount_of_delivery no_consume_options_def)
  note a = createRetryHandler_exhausted [where originalHandler = failing_handler
      and message = "''m''" and ctx = "delivery 7 (Some 3)" and s = demo_conn
      and baseDelay = "Some 1000", OF failing_handler_run n c1]
  note b = handleMessageWithRetry_exhausted [where handler = failing_handler
      and message = "''m''" and ctx = "delivery 7 (Some 3)" and s = demo_conn,
      OF failing_handler_run n' c1]
  from a b show ?thesis by (simp add: w delivery_tag no_consume_options_def)
qed

lemma createIdempotentHandler_duplicate:
  assumes "messageId_of (id_of message) ctx = Some k" and "k \<in> cache"
  shows "createIdempotentHandler id_of originalHandler message ctx (cache, s)
     = (case ack ctx s of (r, s') \<Rightarrow> (r, cache, s'))"
  using assms by (simp add: createIdempotentHandler_def)

lemma createIdempotentHandler_fresh:
  assumes "messageId_of (id_of message) ctx = Some k" and "k \<notin> cache"
  shows "createIdempotentHandler id_of originalHandler message ctx (cache, s)
     = (case originalHandler message ctx s of
          (None, s') \<Rightarrow> (None, insert k cache, s')
        | (Some e, s') \<Rightarrow> (Some e, cache, s'))"
  using assms by (simp add: createIdempotentHandler_def)

text \<open>
  C5. For a message that carries the key \<open>k\<close>:
  if \<open>k\<close> is already recorded, the wrapped handler acknowledges the delivery and returns;
  the result does not depend on the underlying handler, which is not invoked;
  if \<open>k\<close> is not recorded and the underlying handler succeeds, \<open>k\<close> is recorded, and a
  second delivery with the same key is only acknowledged, so that the state after both
  deliveries is the state after one invocation of the handler plus the acknowledgement;
  if \<open>k\<close> is not recorded and the underlying handler fails, the error is passed on and
  \<open>k\<close> stays unrecorded, so that a later delivery with the same key invokes the handler
  again and records \<open>k\<close> exactly when that invocation succeeds.
\<close>

theorem idempotent_filter:
  assumes "messageId_of (id_of message) ctx = Some k"
    and "messageId_of (id_of message2) ctx2 = Some k"
  shows "(k \<in> cache \<longrightarrow> channel s \<longrightarrow>
            createIdempotentHandler id_of originalHandler message ctx (cache, s)
              = (None, cache, s\<lparr>settled := settled s @ [Ack (ctx_deliveryTag ctx)]\<rparr>))
     \<and> (k \<notin> cache \<longrightarrow> originalHandler message ctx s = (None, s1) \<longrightarrow>
            createIdempotentHandler id_of originalHandler message ctx (cache, s)
              = (None, insert k cache, s1)
            \<and> (channel s1 \<longrightarrow>
                 deliver_all id_of originalHandler [(message, ctx), (message2, ctx2)] (cache, s)
                   = ([None, None], insert k cache,
                      s1\<lparr>settled := settled s1 @ [Ack (ctx_deliveryTag ctx2)]\<rparr>)))
     \<and> (k \<notin> cache \<longrightarrow> originalHandler message ctx s = (Some e, s1) \<longrightarrow>
            createIdempotentHandler id_of originalHandler message ctx (cache, s)
              = (Some e, cache, s1)
            \<and> createIdempotentHandler id_of originalHandler message2 ctx2 (cache, s1)
              = (case originalHandler message2 ctx2 s1 of
                   (None, s2) \<Rightarrow> (None, insert k cache, s2)
                 | (Some e2, s2) \<Rightarrow> (Some e2, cache, s2)))"
proof -
  have a: "createIdempotentHandler id_of originalHandler message ctx (cache, s)
              = (None, cache, s\<lparr>settled := settled s @ [Ack (ctx_deliveryTag ctx)]\<rparr>)"
    if "k \<in> cache" and "channel s"
    using createIdempotentHandler_duplicate [where id_of = id_of and message = message
        and originalHandler = originalHandler and s = s, OF assms(1) that(1)] that(2)
    by (simp add: ack_def)
  have b1: "createIdempotentHandler id_of originalHandler message ctx (cache, s)
              = (None, insert k cache, s1)"
    if "k \<notin> cache" and "originalHandler message ctx s = (None, s1)"
    using createIdempotentHandler_fresh [where id_of = id_of and message = message
        and originalHandler = originalHandler and s = s, OF assms(1) that(1)] that(2)
    by simp
  have b2: "deliver_all id_of originalHandler [(message, ctx), (message2, ctx2)] (cache, s)
                   = ([None, None], insert k cache,
                      s1\<lparr>settled := settled s1 @ [Ack (ctx_deliveryTag ctx2)]\<rparr>)"
    if n: "k \<notin> cache" and h: "originalHandler message ctx s = (None, s1)" and c: "channel s1"
  proof -
    have i: "k \<in> insert k cache" by simp
    note x = createIdempotentHandler_duplicate [where id_of = id_of and message = message2
        and originalHandler = originalHandler and s = s1, OF assms(2) i]
    from x c have "createIdempotentHandler id_of originalHandler message2 ctx2 (insert k cache, s1)
        = (None, insert k cache, s1\<lparr>settled := settled s1 @ [Ack (ctx_deliveryTag ctx2)]\<rparr>)"
      by (simp add: ack_def)
    with b1 [OF n h] show ?thesis by simp
  qed
  have c1: "createIdempotentHandler id_of originalHandler message ctx (cache, s)
              = (Some e, cache, s1)"
    if "k \<notin> cache" and "originalHandler message ctx s = (Some e, s1)"
    using createIdempotentHandler_fresh [where id_of = id_of and message = message
        and originalHandler = originalHandler and s = s, OF assms(1) that(1)] that(2)
    by simp
  have c2: "createIdempotentHandler id_of originalHandler message2 ctx2 (cache, s1)
              = (case originalHandler message2 ctx2 s1 of
                   (None, s2) \<Rightarrow> (None, insert k cache, s2)
                 | (Some e2, s2) \<Rightarrow> (Some e2, cache, s2))"
    if "k \<notin> cache"
    by (rule createIdempotentHandler_fresh [where id_of = id_of and message = message2,
          OF assms(2) that])
  from a b1 b2 c1 c2 show ?thesis by blast
qed

lemma counting_handler_run:
  "counting_handler m c s = (None, s\<lparr>world := Suc (world s)\<rparr>)"
  by (simp add: counting_handler_def confined_def)

lemma flaky_handler_run:
  "flaky_handler m c s
     = (if world s = 0 then Some (Error ''boom'') else None, s\<lparr>world := Suc (world s)\<rparr>)"
  by (simp add: flaky_handler_def confined_def)

lemma messageId_of_id: "m \<noteq> [] \<Longrightarrow> messageId_of m c = Some m"
  by (simp add: messageId_of_def)

text \<open>
  C5 with handlers that count their invocations: a recorded key is acknowledged with no
  invocation; two deliveries of a fresh key give one invocation; a failed first delivery
  leaves the key unrecorded and the second delivery is processed.
\<close>

theorem idempotent_filter_witness:
  "createIdempotentHandler (\<lambda>m. m) counting_handler ''order-1'' (delivery 1 None)
       ({''order-1''}, demo_conn)
     = (None, {''order-1''}, demo_conn\<lparr>settled := [Ack 1]\<rparr>)
   \<and> deliver_all (\<lambda>m. m) counting_handler
       [(''order-1'', delivery 1 None), (''order-1'', delivery 2 None)] ({}, demo_conn)
     = ([None, None], {''order-1''}, demo_conn\<lparr>world := 1, settled := [Ack 2]\<rparr>)
   \<and> createIdempotentHandler (\<lambda>m. m) flaky_handler ''order-1'' (delivery 1 None)
       ({}, demo_conn)
     = (Some (Error ''boom''), {}, demo_conn\<lparr>world := 1\<rparr>)
   \<and> createIdempotentHandler (\<lambda>m. m) flaky_handler ''order-1'' (delivery 2 None)
       ({}, demo_conn\<lparr>world := 1\<rparr>)
     = (None, {''order-1''}, demo_conn\<lparr>world := 2\<rparr>)"
proof -
  have w: "world demo_conn = 0" "settled demo_conn = []"
    by (simp_all add: demo_conn_def connected_def newRabbitMQConnection_def)
  have k1: "messageId_of ((\<lambda>m. m) ''order-1'') (delivery 1 None) = Some ''order-1''"
    and k2: "messageId_of ((\<lambda>m. m) ''order-1'') (delivery 2 None) = Some ''order-1''"
    by (simp_all add: messageId_of_id)
  note t = idempotent_filter [where id_of = "\<lambda>m. m" and message = "''order-1''"
      and ?message2.0 = "''order-1''" and ctx = "delivery 1 None" and ?ctx2.0 = "delivery 2 None"
      and k = "''order-1''" and s = demo_conn, OF k1 k2]
  have a: "createIdempotentHandler (\<lambda>m. m) counting_handler ''order-1'' (delivery 1 None)
       ({''order-1''}, demo_conn)
     = (None, {''order-1''}, demo_conn\<lparr>settled := [Ack 1]\<rparr>)"
    using t [where cache = "{''order-1''}" and originalHandler = counting_handler,
        THEN conjunct1] demo_conn_channel
    by (simp add: w delivery_tag)
  have b: "deliver_all (\<lambda>m. m) counting_handler
       [(''order-1'', delivery 1 None), (''order-1'', delivery 2 None)] ({}, demo_conn)
     = ([None, None], {''order-1''}, demo_conn\<lparr>world := 1, settled := [Ack 2]\<rparr>)"
    using t [where cache = "{}" and originalHandler = counting_handler
        and ?s1.0 = "demo_conn\<lparr>world := Suc (world demo_conn)\<rparr>",
        THEN conjunct2, THEN conjunct1] demo_conn_channel
      counting_handler_run [of "''order-1''" "delivery 1 None" demo_conn]
    by (simp add: w delivery_tag del: deliver_all.simps)
  have c: "createIdempotentHandler (\<lambda>m. m) flaky_handler ''order-1'' (delivery 1 None)
       ({}, demo_conn)
     = (Some (Error ''boom''), {}, demo_conn\<lparr>world := 1\<rparr>)
   \<and> createIdempotentHandler (\<lambda>m. m) flaky_handler ''order-1'' (delivery 2 None)
       ({}, demo_conn\<lparr>world := 1\<rparr>)
     = (None, {''order-1''}, demo_conn\<lparr>world := 2\<rparr>)"
    using t [where cache = "{}" and originalHandler = flaky_handler
        and ?s1.0 = "demo_conn\<lparr>world := Suc (world demo_conn)\<rparr>"
        and e = "Error ''boom''",
        THEN conjunct2, THEN conjunct2]
      flaky_handler_run [of "''order-1''" "delivery 1 None" demo_conn]
    by (simp add: w flaky_handler_run)
  from a b c show ?thesis by simp
qed

lemma createIdempotentHandler_cache:
  assumes "createIdempotentHandler id_of h m c (cache, s) = (r, cache', s')"
  shows "cache \<subseteq> cache' \<and>
     (r = None \<longrightarrow> cache' = cache \<union> set (keys_of id_of [(m, c)]))"
  using assms
  by (auto simp: createIdempotentHandler_def keys_of_def List.map_filter_def
      split: option.splits if_splits prod.splits)

lemma keys_of_Cons: "keys_of id_of (x # xs) = keys_of id_of [x] @ keys_of id_of xs"
  by (simp add: keys_of_def List.map_filter_def)

text \<open>
  C9, amended. The idempotent handler only ever adds keys to the set it is given: after
  any sequence of deliveries the set includes what it held before, and when every delivery
  ended without an error it is exactly the old set together with the keys of all the
  messages delivered. For distinct keys not recorded before, the set grows by one element
  per message; nothing is removed or expires.
\<close>

theorem idempotency_keys_only_accumulate:
  assumes "deliver_all id_of h ms (cache, s) = (rs, cache', s')"
  shows "cache \<subseteq> cache'
     \<and> (list_all (\<lambda>r. r = None) rs \<longrightarrow> cache' = cache \<union> set (keys_of id_of ms))
     \<and> (list_all (\<lambda>r. r = None) rs \<longrightarrow> finite cache \<longrightarrow> distinct (keys_of id_of ms) \<longrightarrow>
          set (keys_of id_of ms) \<inter> cache = {} \<longrightarrow>
          card cache' = card cache + length (keys_of id_of ms))"
proof -
  have main: "cache \<subseteq> cache'
     \<and> (list_all (\<lambda>r. r = None) rs \<longrightarrow> cache' = cache \<union> set (keys_of id_of ms))"
    using assms
  proof (induction ms arbitrary: cache s rs)
    case Nil
    then show ?case by (simp add: keys_of_def List.map_filter_def)
  next
    case (Cons x ms)
    obtain m c where x: "x = (m, c)" by (cases x)
    obtain r c1 s1 where e: "createIdempotentHandler id_of h m c (cache, s) = (r, c1, s1)"
      by (cases "createIdempotentHandler id_of h m c (cache, s)")
    obtain rs1 c2 s2 where a: "deliver_all id_of h ms (c1, s1) = (rs1, c2, s2)"
      by (cases "deliver_all id_of h ms (c1, s1)")
    from Cons.prems x e a have eq: "rs = r # rs1" "c2 = cache'" "s2 = s'" by simp_all
    note one = createIdempotentHandler_cache [OF e]
    note rest = Cons.IH [OF a [unfolded eq]]
    have k: "keys_of id_of (x # ms) = keys_of id_of [(m, c)] @ keys_of id_of ms"
      using keys_of_Cons [of id_of x ms] x by simp
    show ?case using one rest eq k by auto
  qed
  have count: "card cache' = card cache + length (keys_of id_of ms)"
    if "list_all (\<lambda>r. r = None) rs" and f: "finite cache"
      and d: "distinct (keys_of id_of ms)" and i: "set (keys_of id_of ms) \<inter> cache = {}"
  proof -
    from main that(1) have "cache' = cache \<union> set (keys_of id_of ms)" by simp
    then have "card cache' = card cache + card (set (keys_of id_of ms))"
      using f i by (simp add: card_Un_disjoint Int_commute)
    with d show ?thesis by (simp add: distinct_card)
  qed
  from main count show ?thesis by blast
qed

lemma distinct_deliveries_3:
  "distinct_deliveries 3
     = [(''k'', delivery 0 None), (''kk'', delivery 1 None), (''kkk'', delivery 2 None)]"
  by (simp add: distinct_deliveries_def upt_rec [of 0] upt_rec [of 1] upt_rec [of 2]
      numeral_3_eq_3 numeral_2_eq_2)

lemma distinct_deliveries_3_run:
  "deliver_all (\<lambda>m. m) counting_handler (distinct_deliveries 3) ({}, demo_conn)
     = ([None, None, None], {''k'', ''kk'', ''kkk''}, demo_conn\<lparr>world := 3\<rparr>)"
proof -
  have w: "world demo_conn = 0"
    by (simp add: demo_conn_def connected_def newRabbitMQConnection_def)
  show ?thesis
    by (simp add: distinct_deliveries_3 createIdempotentHandler_def messageId_of_id
        counting_handler_run w insert_commute)
qed

text \<open>
  The amended C9 on three messages with distinct keys: all three keys are retained.
\<close>

theorem idempotency_keys_only_accumulate_witness:
  "fst (snd (deliver_all (\<lambda>m. m) counting_handler (distinct_deliveries 3) ({}, demo_conn)))
     = {''k'', ''kk'', ''kkk''}
   \<and> card {''k'', ''kk'', ''kkk''} = 3"
proof -
  have k: "keys_of (\<lambda>m. m) (distinct_deliveries 3) = [''k'', ''kk'', ''kkk'']"
    by (simp add: distinct_deliveries_3 keys_of_def List.map_filter_def messageId_of_id)
  from idempotency_keys_only_accumulate [OF distinct_deliveries_3_run]
  show ?thesis by (simp add: k distinct_deliveries_3_run)
qed

lemma counting_handler_records_all:
  assumes "channel s" and "list_all (\<lambda>(m, c). m \<noteq> []) ms"
  shows "\<exists>rs s'. deliver_all (\<lambda>m. m) counting_handler ms (cache, s)
                   = (rs, cache \<union> set (map fst ms), s') \<and> channel s'"
  using assms
proof (induction ms arbitrary: cache s)
  case Nil
  then show ?case by simp
next
  case (Cons x ms)
  obtain m c where x: "x = (m, c)" by (cases x)
  with Cons.prems(2) have m: "m \<noteq> []" and r: "list_all (\<lambda>(m, c). m \<noteq> []) ms" by simp_all
  have "\<exists>r s1. createIdempotentHandler (\<lambda>m. m) counting_handler m c (cache, s)
          = (r, insert m cache, s1) \<and> channel s1"
    using Cons.prems(1) m
    by (auto simp: createIdempotentHandler_def messageId_of_id counting_handler_run ack_def)
  then obtain r1 s1 where e: "createIdempotentHandler (\<lambda>m. m) counting_handler m c (cache, s)
          = (r1, insert m cache, s1)" and c1: "channel s1" by blast
  from Cons.IH [OF c1 r, of "insert m cache"]
  obtain rs s' where a: "deliver_all (\<lambda>m. m) counting_handler ms (insert m cache, s1)
                   = (rs, insert m cache \<union> set (map fst ms), s')" and c': "channel s'"
    by blast
  show ?case using x e a c' by auto
qed

lemma distinct_keys: "distinct (map fst (distinct_deliveries n))"
proof -
  have "inj_on (\<lambda>i. replicate (Suc i) CHR ''k'') (set [0..<n])"
  proof (rule inj_onI)
    fix i j
    assume "replicate (Suc i) CHR ''k'' = replicate (Suc j) CHR ''k''"
    then have "length (replicate (Suc i) CHR ''k'') = length (replicate (Suc j) CHR ''k'')"
      by (rule arg_cong)
    then show "i = j" by simp
  qed
  then show ?thesis
    by (simp add: distinct_deliveries_def comp_def distinct_map)
qed

lemma distinct_deliveries_cache:
  "card (fst (snd (deliver_all (\<lambda>m. m) counting_handler (distinct_deliveries n)
            ({}, demo_conn)))) = n"
proof -
  have l: "list_all (\<lambda>(m, c). m \<noteq> []) (distinct_deliveries n)"
    by (simp add: distinct_deliveries_def list_all_iff)
  from counting_handler_records_all [OF demo_conn_channel l, of "{}"]
  obtain rs s' where "deliver_all (\<lambda>m. m) counting_handler (distinct_deliveries n)
      ({}, demo_conn) = (rs, {} \<union> set (map fst (distinct_deliveries n)), s')"
    by blast
  then have "fst (snd (deliver_all (\<lambda>m. m) counting_handler (distinct_deliveries n)
            ({}, demo_conn))) = set (map fst (distinct_deliveries n))"
    by simp
  moreover have "card (set (map fst (distinct_deliveries n))) = n"
    using distinct_card [OF distinct_keys [of n]] by (simp add: distinct_deliveries_def)
  ultimately show ?thesis by simp
qed

text \<open>
  C9, as stated, fails: no bound holds for the number of recorded keys. After \<open>n\<close>
  successfully processed messages with distinct keys the set holds \<open>n\<close> keys.
\<close>

theorem idempotency_keys_unbounded_counterexample:
  "\<not> (\<exists>bound. \<forall>n. card (fst (snd (deliver_all (\<lambda>m. m) counting_handler
                              (distinct_deliveries n) ({}, demo_conn)))) \<le> bound)"
proof
  assume "\<exists>bound. \<forall>n. card (fst (snd (deliver_all (\<lambda>m. m) counting_handler
                              (distinct_deliveries n) ({}, demo_conn)))) \<le> bound"
  then obtain bound where "\<forall>n. card (fst (snd (deliver_all (\<lambda>m. m) counting_handler
                              (distinct_deliveries n) ({}, demo_conn)))) \<le> bound"
    by blast
  then have "card (fst (snd (deliver_all (\<lambda>m. m) counting_handler
                              (distinct_deliveries (Suc bound)) ({}, demo_conn)))) \<le> bound"
    by blast
  then show False by (simp add: distinct_deliveries_cache)
qed

lemma demo_call_eval:
  "rpc_promise demo_call = Pending" "rpc_timer demo_call" "rpc_timeout demo_call = 5000"
  "rpc_consumers demo_call = [(''amq.gen-1'', ''abc123'')]"
  "channel (rpc_conn demo_call)" "settled (rpc_conn demo_call) = []"
  by (simp_all add: demo_call_def rpc_def publish_open demo_conn_channel)
     (simp_all add: demo_conn_def connected_def newRabbitMQConnection_def)

text \<open>
  C7 against the code. A call of \<^verbatim>\<open>rpc\<close> whose timer fires before any reply rejects
  with \<^verbatim>\<open>TimeoutError\<close>, but the consumer it registered on the reply queue for its
  correlation id is still registered afterwards: a reply that arrives late is still taken
  by that consumer and acknowledged, while the promise stays rejected.
\<close>

theorem rpc_timeout_keeps_reply_consumer:
  "rpc_promise demo_call = Pending
   \<and> rpc_promise (timer_fires demo_call) = Rejected (TimeoutError ''RPC request'' 5000)
   \<and> rpc_consumers (timer_fires demo_call) = rpc_consumers demo_call
   \<and> rpc_consumers (timer_fires demo_call) = [(''amq.gen-1'', ''abc123'')]
   \<and> settled (rpc_conn (timer_fires demo_call)) = []
   \<and> settled (rpc_conn (reply_arrives 9 ''amq.gen-1'' (Some ''abc123'') (Some ''late reply'')
                          (timer_fires demo_call))) = [Ack 9]
   \<and> rpc_promise (reply_arrives 9 ''amq.gen-1'' (Some ''abc123'') (Some ''late reply'')
                          (timer_fires demo_call))
       = Rejected (TimeoutError ''RPC request'' 5000)"
  by (simp add: timer_fires_def reply_arrives_def demo_call_eval)

end
